theory Spec2Isabelle
  imports Complex_Main "HOL-Library.Sublist"
begin

section \<open>Errors and outcomes\<close>

text \<open>
  The exceptions the modelled code can raise, by the name of the Python class.
  The repository defines a single exception class of its own (\<open>RunnerError\<close>); all
  the others come from the interpreter and the libraries it calls.
\<close>

datatype error =
    IndexError
  | KeyError
  | AttributeError
  | UnboundLocalError
  | FileNotFoundError
  | IsADirectoryError
  | NotADirectoryError
  | ProcessLookupError
  | TimeoutError
  | RunnerError
  | RuntimeError
  | HTTPException nat string


text \<open>
  What a call of the modelled code can do: return a value, raise an exception, or never
  come back (an \<open>await\<close> on a process that does not exit). Each outcome carries the
  state the call has built up to that point, so that the effects that precede a raise
  are kept, as they are in Python.
\<close>

datatype ('a, 's) outcome = Return 'a 's | Raise error 's | Blocked 's

fun and_then :: "('a, 's) outcome \<Rightarrow> ('a \<Rightarrow> 's \<Rightarrow> ('b, 's) outcome) \<Rightarrow> ('b, 's) outcome" where
  "and_then (Return a s) f = f a s"
| "and_then (Raise e s) f = Raise e s"
| "and_then (Blocked s) f = Blocked s"

text \<open>\<open>try: m except e: h\<close>, for a handler that catches the one exception class \<open>e\<close>.\<close>

fun except :: "('a, 's) outcome \<Rightarrow> error \<Rightarrow> ('s \<Rightarrow> ('a, 's) outcome) \<Rightarrow> ('a, 's) outcome" where
  "except (Raise e' s) e h = (if e' = e then h s else Raise e' s)"
| "except (Return a s) e h = Return a s"
| "except (Blocked s) e h = Blocked s"

fun final_state :: "('a, 's) outcome \<Rightarrow> 's" where
  "final_state (Return a s) = s"
| "final_state (Raise e s) = s"
| "final_state (Blocked s) = s"

text \<open>A call seen from a larger state: \<open>put\<close> stores the callee's state back.\<close>

fun embed :: "('t \<Rightarrow> 's) \<Rightarrow> ('a, 't) outcome \<Rightarrow> ('a, 's) outcome" where
  "embed put (Return a t) = Return a (put t)"
| "embed put (Raise e t) = Raise e (put t)"
| "embed put (Blocked t) = Blocked (put t)"

section \<open>Strings, dictionaries, paths and files\<close>

text \<open>\<open>str(i)\<close> for a Python integer.\<close>

function str_nat :: "nat \<Rightarrow> string" where
  "str_nat n = (if n < 10 then [char_of (48 + n)] else str_nat (n div 10) @ [char_of (48 + n mod 10)])"
  by pat_completeness auto
termination
  by (relation "measure id") auto

declare str_nat.simps [simp del]

definition str_int :: "int \<Rightarrow> string" where
  "str_int i = (if i < 0 then CHR ''-'' # str_nat (nat (- i)) else str_nat (nat i))"

text \<open>
  A Python \<open>dict\<close> keeps its keys in insertion order; the code iterates over
  dictionaries, so a dictionary is the list of its items in that order. \<open>d[k] = v\<close>
  replaces the value of a present key in place and appends a new key, \<open>del d[k]\<close>
  removes the item, \<open>{**a, **b}\<close> stores the items of \<open>b\<close> into a copy of \<open>a\<close>.
\<close>

type_synonym ('k, 'v) dict = "('k \<times> 'v) list"

fun dict_set :: "'k \<Rightarrow> 'v \<Rightarrow> ('k, 'v) dict \<Rightarrow> ('k, 'v) dict" where
  "dict_set k v [] = [(k, v)]"
| "dict_set k v ((k', v') # d) = (if k' = k then (k, v) # d else (k', v') # dict_set k v d)"

definition dict_get :: "('k, 'v) dict \<Rightarrow> 'k \<Rightarrow> 'v option" where
  "dict_get d k = map_of d k"

definition dict_del :: "'k \<Rightarrow> ('k, 'v) dict \<Rightarrow> ('k, 'v) dict" where
  "dict_del k d = filter (\<lambda>kv. fst kv \<noteq> k) d"

definition dict_merge :: "('k, 'v) dict \<Rightarrow> ('k, 'v) dict \<Rightarrow> ('k, 'v) dict" where
  "dict_merge a b = foldl (\<lambda>d kv. dict_set (fst kv) (snd kv) d) a b"


definition os_path_dirname :: "string \<Rightarrow> string" where
  "os_path_dirname p =
     (let head = rev (dropWhile (\<lambda>c. c \<noteq> CHR ''/'') (rev p))
      in if head \<noteq> [] \<and> \<not> list_all (\<lambda>c. c = CHR ''/'') head
         then rev (dropWhile (\<lambda>c. c = CHR ''/'') (rev head))
         else head)"

text \<open>
  The disk, as far as the code looks at it. A path holds a regular file with its text,
  or a directory. A release is checked out by the pygit2 loop of
  \<open>git_copy_tagged_version\<close>, which writes every tracked file below the target folder
  and creates the folders on the way; the model keeps the folder and the files written
  into it as one directory node at the target path. Directories made by \<open>os.makedirs\<close>
  are nodes without tracked files; the ancestors it creates are not recorded, no modelled
  operation asks for them. \<open>shutil.rmtree\<close> removes a directory with all that lies below.
\<close>

datatype node = File string | Dir "(string \<times> string) list"

type_synonym filesystem = "string \<Rightarrow> node option"

definition os_path_exists :: "filesystem \<Rightarrow> string \<Rightarrow> bool" where
  "os_path_exists f p = (f p \<noteq> None)"

definition below :: "string \<Rightarrow> string \<Rightarrow> bool" where
  "below d p = (p = d \<or> prefix (d @ ''/'') p)"

definition os_makedirs :: "string \<Rightarrow> filesystem \<Rightarrow> filesystem" where
  "os_makedirs d f = (if f d = None then f(d \<mapsto> Dir []) else f)"

definition shutil_rmtree :: "string \<Rightarrow> filesystem \<Rightarrow> error + filesystem" where
  "shutil_rmtree d f =
     (case f d of
        None \<Rightarrow> Inl FileNotFoundError
      | Some (File t) \<Rightarrow> Inl NotADirectoryError
      | Some (Dir t) \<Rightarrow> Inr (\<lambda>p. if below d p then None else f p))"

section \<open>Port pool: \<open>runner/port_service.py\<close>\<close>

text \<open>
  \<open>PortService\<close> keeps a \<open>sortedcontainers.SortedSet\<close> of integers. The set is
  modelled by the list of its elements in iteration order, which for a \<open>SortedSet\<close> is
  strictly increasing. \<open>SortedSet(ports)\<close> sorts the iterable and drops duplicates,
  \<open>pop(0)\<close> removes and returns the element at index 0 and raises \<open>IndexError\<close> on
  an empty set, \<open>add\<close> inserts a value at its place unless it is present already.
\<close>

record PortService =
  ports :: "int list"

definition sorted_set :: "int list \<Rightarrow> bool" where
  "sorted_set xs = (sorted xs \<and> distinct xs)"

definition PortService_init :: "int list \<Rightarrow> PortService" where
  "PortService_init xs = \<lparr>ports = sort (remdups xs)\<rparr>"

definition acquire_port :: "PortService \<Rightarrow> error + int \<times> PortService" where
  "acquire_port p =
     (case ports p of
        [] \<Rightarrow> Inl IndexError
      | x # xs \<Rightarrow> Inr (x, p\<lparr>ports := xs\<rparr>))"

definition release_port :: "int \<Rightarrow> PortService \<Rightarrow> PortService" where
  "release_port x p =
     (if x \<in> set (ports p) then p else p\<lparr>ports := insort x (ports p)\<rparr>)"

section \<open>Child processes and the environment\<close>

text \<open>
  The state shared by all objects of the program: the disk, the one \<open>PortService\<close> of
  the runner factory, the command lines handed to \<open>asyncio.create_subprocess_shell\<close>
  so far (the \<open>n\<close>-th child has pid \<open>n\<close>), the coroutines scheduled with
  \<open>asyncio.ensure_future\<close> and not started yet, and the calls of
  \<open>git_copy_tagged_version\<close> as (tag, target folder).
\<close>

type_synonym addr = nat

datatype task =
    Wait_script addr
  | Kill_script addr
  | Run_service addr
  | Wait_service addr
  | Log_service addr
  | Kill_service addr

record globals =
  fs :: filesystem
  port_service :: PortService
  launches :: "string list"
  tasks :: "task list"
  checkouts :: "(string \<times> string) list"

text \<open>
  What the program cannot decide is an input of the model. A child process is described
  by how it behaves: the exit status it already has at the end of the three seconds that
  \<open>StreamlitVenvRunner\<close> sleeps after the launch (\<open>None\<close> when it still runs), the
  status with which it exits when nobody signals it (\<open>None\<close> when it runs for ever),
  its reaction to SIGTERM (the time it needs to exit and its status, \<open>None\<close> when it
  ignores the signal) and to SIGKILL. The environment also gives the files of a
  repository at a tag (\<open>None\<close> when pygit2 cannot resolve the tag), the clock readings
  and the configured root folder of the releases (\<open>Release._root_path\<close>).
\<close>

record behaviour =
  early_exit :: "int option"
  natural_exit :: "int option"
  on_terminate :: "(rat \<times> int) option"
  on_kill :: "rat \<times> int"

record environment =
  behaviour_of :: "nat \<Rightarrow> behaviour"
  tagged_tree :: "int \<Rightarrow> string \<Rightarrow> (string \<times> string) list option"
  time_time :: int
  utcnow :: string
  releases_root :: string

text \<open>An \<open>asyncio.subprocess.Process\<close>, with the signals sent to it.\<close>

record process =
  pid :: nat
  returncode :: "int option"
  sigterm_sent :: bool
  sigkill_sent :: bool

text \<open>
  The status with which an unbounded \<open>await proc.wait()\<close> comes back (\<open>None\<close>: it
  never does), and the status with which it comes back within \<open>t\<close> time units once a
  signal has been sent (\<open>None\<close>: the process is still running after \<open>t\<close>).
\<close>

definition exit_status :: "behaviour \<Rightarrow> process \<Rightarrow> int option" where
  "exit_status b p =
     (case returncode p of
        Some c \<Rightarrow> Some c
      | None \<Rightarrow>
          if sigkill_sent p then Some (snd (on_kill b))
          else if sigterm_sent p \<and> on_terminate b \<noteq> None then map_option snd (on_terminate b)
          else natural_exit b)"

definition exit_within :: "behaviour \<Rightarrow> process \<Rightarrow> rat \<Rightarrow> int option" where
  "exit_within b p t =
     (case returncode p of
        Some c \<Rightarrow> Some c
      | None \<Rightarrow>
          if sigkill_sent p \<and> fst (on_kill b) \<le> t then Some (snd (on_kill b))
          else if sigterm_sent p then
            (case on_terminate b of
               Some (d, c) \<Rightarrow> if d \<le> t then Some c else None
             | None \<Rightarrow> None)
          else None)"

section \<open>Process runner: \<open>runner/runner_base.py\<close> and \<open>runner/subprocess_runner.py\<close>\<close>

text \<open>
  The three concrete runners differ in \<open>_run_impl\<close>, and \<open>StreamlitVenvRunner\<close>
  overrides \<open>wait\<close> and \<open>port\<close>; one record with the class as a field carries all
  three. The stream objects and the pseudo-terminal descriptors of \<open>SubProcessRunner\<close>
  are left out: no modelled operation reads them. \<open>port\<close> is the attribute \<open>_port\<close>,
  which only \<open>StreamlitVenvRunner\<close> has.
\<close>

datatype StreamStrategy = PSEUDO_TERMINAL | SUBPROCESS_PIPE | DEVNULL

datatype RunnerClass = PythonShellRunner | PythonVEnvRunner | StreamlitVenvRunner

record SubProcessRunner =
  runner_class :: RunnerClass
  venv_activator :: string
  work_dir :: string
  stream_strategy :: StreamStrategy
  proc :: "process option"
  run_start_event :: bool
  port :: "int option"

type_synonym runner_state = "SubProcessRunner \<times> globals"

definition SubProcessRunner_init :: "RunnerClass \<Rightarrow> string \<Rightarrow> string \<Rightarrow> StreamStrategy \<Rightarrow> SubProcessRunner" where
  "SubProcessRunner_init c activator dir strategy =
     \<lparr>runner_class = c, venv_activator = activator, work_dir = dir, stream_strategy = strategy,
      proc = None, run_start_event = False, port = None\<rparr>"

definition is_running :: "SubProcessRunner \<Rightarrow> bool" where
  "is_running r = (case proc r of None \<Rightarrow> False | Some p \<Rightarrow> returncode p = None)"

definition Runner_port :: "SubProcessRunner \<Rightarrow> int option" where
  "Runner_port r = (if runner_class r = StreamlitVenvRunner then port r else None)"



text \<open>
  \<open>_terminate_impl\<close> and \<open>_kill_impl\<close> call \<open>terminate()\<close> and \<open>kill()\<close> of the
  process object: an attribute error when no process was ever started, a
  \<open>ProcessLookupError\<close> of asyncio when the process is gone.
\<close>

definition signal_impl :: "bool \<Rightarrow> runner_state \<Rightarrow> (unit, runner_state) outcome" where
  "signal_impl hard = (\<lambda>(r, g).
     case proc r of
       None \<Rightarrow> Raise AttributeError (r, g)
     | Some p \<Rightarrow>
         if returncode p \<noteq> None then Raise ProcessLookupError (r, g)
         else if hard then Return () (r\<lparr>proc := Some (p\<lparr>sigkill_sent := True\<rparr>)\<rparr>, g)
         else Return () (r\<lparr>proc := Some (p\<lparr>sigterm_sent := True\<rparr>)\<rparr>, g))"

definition terminate_impl :: "runner_state \<Rightarrow> (unit, runner_state) outcome" where
  "terminate_impl = signal_impl False"

definition kill_impl :: "runner_state \<Rightarrow> (unit, runner_state) outcome" where
  "kill_impl = signal_impl True"

text \<open>
  \<open>StreamlitVenvRunner._release_port\<close>: \<open>if self._port:\<close> is false for \<open>None\<close> and
  for port 0.
\<close>

definition release_runner_port :: "runner_state \<Rightarrow> runner_state" where
  "release_runner_port = (\<lambda>(r, g).
     case port r of
       None \<Rightarrow> (r, g)
     | Some x \<Rightarrow>
         if x = 0 then (r, g)
         else (r\<lparr>port := None\<rparr>, g\<lparr>port_service := release_port x (port_service g)\<rparr>))"

text \<open>
  What \<open>wait\<close> does once the process has exited with status \<open>c\<close>: the run-start event
  is cleared, and \<open>StreamlitVenvRunner.wait\<close> gives its port back.
\<close>

definition reaped :: "process \<Rightarrow> int \<Rightarrow> runner_state \<Rightarrow> (int, runner_state) outcome" where
  "reaped p c = (\<lambda>(r, g).
     let r' = r\<lparr>proc := Some (p\<lparr>returncode := Some c\<rparr>), run_start_event := False\<rparr>
     in Return c (if runner_class r = StreamlitVenvRunner then release_runner_port (r', g) else (r', g)))"

definition Runner_wait :: "environment \<Rightarrow> runner_state \<Rightarrow> (int, runner_state) outcome" where
  "Runner_wait ev = (\<lambda>(r, g).
     case proc r of
       None \<Rightarrow> Raise AttributeError (r, g)
     | Some p \<Rightarrow>
         (case exit_status (behaviour_of ev (pid p)) p of
            None \<Rightarrow> Blocked (r, g)
          | Some c \<Rightarrow> reaped p c (r, g)))"

text \<open>
  \<open>wait_for\<close> is \<open>asyncio.wait_for(self.wait(), timeout)\<close>. With a timeout that is not
  positive the fresh coroutine is cancelled before it starts and \<open>TimeoutError\<close> is
  raised; otherwise the wait is cancelled, with none of its effects, when the process
  has not exited in time.
\<close>

definition Runner_wait_for :: "environment \<Rightarrow> rat \<Rightarrow> runner_state \<Rightarrow> (int, runner_state) outcome" where
  "Runner_wait_for ev timeout = (\<lambda>(r, g).
     if timeout \<le> 0 then Raise TimeoutError (r, g)
     else
       case proc r of
         None \<Rightarrow> Raise AttributeError (r, g)
       | Some p \<Rightarrow>
           (case exit_within (behaviour_of ev (pid p)) p timeout of
              None \<Rightarrow> Raise TimeoutError (r, g)
            | Some c \<Rightarrow> reaped p c (r, g)))"

text \<open>\<open>if timeout:\<close> on an optional number: false for \<open>None\<close> and for zero.\<close>

definition truthy :: "rat option \<Rightarrow> bool" where
  "truthy timeout = (case timeout of None \<Rightarrow> False | Some t \<Rightarrow> t \<noteq> 0)"

definition Runner_terminate :: "environment \<Rightarrow> rat option \<Rightarrow> runner_state \<Rightarrow> (int, runner_state) outcome" where
  "Runner_terminate ev timeout x =
     (if truthy timeout
      then and_then (terminate_impl x) (\<lambda>u. Runner_wait_for ev (the timeout))
      else and_then (terminate_impl x) (\<lambda>u. Runner_wait ev))"

definition Runner_kill :: "environment \<Rightarrow> rat option \<Rightarrow> runner_state \<Rightarrow> (int, runner_state) outcome" where
  "Runner_kill ev timeout x =
     (if truthy timeout
      then and_then (kill_impl x) (\<lambda>u. Runner_wait_for ev (the timeout))
      else and_then (kill_impl x) (\<lambda>u. Runner_wait ev))"

text \<open>
  The command lines of \<open>_run_impl\<close>. \<open>env_variables\<close> is rendered as \<open>key=value\<close>
  items, each followed by a blank; the value \<open>True\<close> that the callers store under
  \<open>RELEASE_MODE\<close> is rendered by the f-string as the text \<open>True\<close>.
\<close>

definition render_env :: "(string, string) dict \<Rightarrow> string" where
  "render_env d = concat (map (\<lambda>kv. fst kv @ ''='' @ snd kv @ '' '') d)"

fun join_with :: "string \<Rightarrow> string list \<Rightarrow> string" where
  "join_with sep [] = []"
| "join_with sep [x] = x"
| "join_with sep (x # y # ys) = x @ sep @ join_with sep (y # ys)"

definition create_subprocess :: "string \<Rightarrow> runner_state \<Rightarrow> runner_state" where
  "create_subprocess cmd = (\<lambda>(r, g).
     (r\<lparr>proc := Some \<lparr>pid = length (launches g), returncode = None,
                      sigterm_sent = False, sigkill_sent = False\<rparr>\<rparr>,
      g\<lparr>launches := launches g @ [cmd]\<rparr>))"

definition run_impl ::
  "environment \<Rightarrow> string \<Rightarrow> (string, string) dict \<Rightarrow> string list \<Rightarrow> runner_state \<Rightarrow> (bool, runner_state) outcome" where
  "run_impl ev entry_file env_variables cli_args = (\<lambda>(r, g).
     case runner_class r of
       PythonShellRunner \<Rightarrow>
         Return True (create_subprocess
           (''. '' @ venv_activator r @ ''; cd '' @ work_dir r @ '';exec python'') (r, g))
     | PythonVEnvRunner \<Rightarrow>
         Return True (create_subprocess
           (''. '' @ venv_activator r @ ''; cd '' @ work_dir r @ ''; exec env '' @ render_env env_variables
             @ '' python -u '' @ entry_file @ '' '' @ join_with '' '' cli_args @ '' '') (r, g))
     | StreamlitVenvRunner \<Rightarrow>
         (case acquire_port (port_service g) of
            Inl e \<Rightarrow> Raise e (r, g)
          | Inr (x, pool) \<Rightarrow>
              let (r', g') = create_subprocess
                    (''. '' @ venv_activator r @ ''; cd '' @ work_dir r @ ''; exec env '' @ render_env env_variables
                      @ '' streamlit run '' @ entry_file @ '' --server.port '' @ str_int x
                      @ ''  --server.headless true -- '' @ join_with '' '' cli_args)
                    (r\<lparr>port := Some x\<rparr>, g\<lparr>port_service := pool\<rparr>);
                  status = early_exit (behaviour_of ev (length (launches g)))
              in Return (status = None)
                   (r'\<lparr>proc := map_option (\<lambda>p. p\<lparr>returncode := status\<rparr>) (proc r')\<rparr>, g')))"

text \<open>
  \<open>SubProcessRunner.run\<close>: a runner whose process is still running stops it first
  (\<open>terminate\<close> with a timeout of 10, \<open>kill\<close> when that times out), then launches.
\<close>

definition SubProcessRunner_run ::
  "environment \<Rightarrow> string \<Rightarrow> (string, string) dict \<Rightarrow> string list \<Rightarrow> runner_state \<Rightarrow> (bool, runner_state) outcome" where
  "SubProcessRunner_run ev entry_file env_variables cli_args x =
     and_then
       (if is_running (fst x)
        then except (Runner_terminate ev (Some 10) x) TimeoutError (Runner_kill ev None)
        else Return 0 x)
       (\<lambda>u y.
          and_then (run_impl ev entry_file env_variables cli_args y)
            (\<lambda>started (r, g).
               if started then Return True (r\<lparr>run_start_event := True\<rparr>, g) else Return False (r, g)))"

section \<open>Releases: \<open>models/app_config.py\<close> and \<open>models/releases.py\<close>\<close>

datatype AppType = SERVICE | STREAMLIT | PYTHON | UNKNOWN

record RuntimeConfig =
  entry_file :: string
  env :: "(string, string) dict"
  cli_args :: "string list"

record AppConfig =
  app_icon :: "string option"
  type :: AppType
  config :: RuntimeConfig

text \<open>Of a \<open>Repository\<close>, the attributes that the modelled code reads.\<close>

record Repository =
  git_service_id :: int
  name :: string
  owner_id :: int
  owner_name :: string

text \<open>
  A \<open>Release\<close>. \<open>path\<close> is the attribute \<open>_path\<close>, which the constructor computes
  from the root folder, the owner (the shared owner for a shared clone), the repository
  name and the tag; \<open>shared_owner_id\<close> is \<open>_shared_owner_id\<close>.
\<close>

record Release =
  repo :: Repository
  tag_name :: string
  time :: int
  shared_owner_id :: "int option"
  path :: string
  apps :: "(string, AppConfig) dict"

definition root_path :: "Release \<Rightarrow> string" where
  "root_path rel = path rel"

definition Release_id :: "Release \<Rightarrow> string" where
  "Release_id rel = tag_name rel"

definition Release_owner_id :: "Release \<Rightarrow> int" where
  "Release_owner_id rel = owner_id (repo rel)"

definition shared_to_id :: "Release \<Rightarrow> int option" where
  "shared_to_id rel = shared_owner_id rel"

definition loaded_on_disk :: "Release \<Rightarrow> globals \<Rightarrow> bool" where
  "loaded_on_disk rel g = os_path_exists (fs g) (path rel)"

text \<open>
  \<open>GitRepository.git_copy_tagged_version\<close>: the tag is resolved (a \<open>KeyError\<close> of
  pygit2 when it cannot be), then every file of the tagged tree is written below the
  target folder. A tree without files leaves the disk as it is.
\<close>

definition git_copy_tagged_version ::
  "environment \<Rightarrow> Repository \<Rightarrow> string \<Rightarrow> string \<Rightarrow> globals \<Rightarrow> (unit, globals) outcome" where
  "git_copy_tagged_version ev rp tag to_folder g =
     (let g' = g\<lparr>checkouts := checkouts g @ [(tag, to_folder)]\<rparr>
      in case tagged_tree ev (git_service_id rp) tag of
           None \<Rightarrow> Raise KeyError g'
         | Some files \<Rightarrow>
             Return () (if files = [] then g' else g'\<lparr>fs := (fs g')(to_folder \<mapsto> Dir files)\<rparr>))"

definition load :: "environment \<Rightarrow> Release \<Rightarrow> globals \<Rightarrow> (unit, globals) outcome" where
  "load ev rel g =
     (if loaded_on_disk rel g then Return () g
      else git_copy_tagged_version ev (repo rel) (tag_name rel) (path rel) g)"

definition unload :: "Release \<Rightarrow> globals \<Rightarrow> (unit, globals) outcome" where
  "unload rel g =
     (case shutil_rmtree (root_path rel) (fs g) of
        Inl e \<Rightarrow> Raise e g
      | Inr f \<Rightarrow> Return () (g\<lparr>fs := f\<rparr>))"



section \<open>Scripts: \<open>models/script.py\<close> and the run endpoint of \<open>handlers/script_handler.py\<close>\<close>

text \<open>
  \<open>ScriptModel\<close> and \<open>ServiceModel\<close> share most of their fields, and both classes keep
  a release and a runner; the shared part is one record. The runner is a reference to a
  runner object. \<open>service.py\<close> defines the four states, \<open>script.py\<close> the first three.
\<close>

datatype State = ACTIVE | STARTING | INACTIVE | FAILED_TO_START

record ReleaseObject =
  state :: State
  exit_code :: "int option"
  name :: string
  config :: AppConfig
  version :: string
  created_at :: int
  compound_id :: "string \<times> string"
  repository_id :: int
  owner_name :: string
  release :: Release
  runner :: addr

record Script = ReleaseObject +
  port :: "int option"
  type :: AppType

text \<open>
  A method of a script works on the script, on the runner object it refers to and on the
  shared state.
\<close>

type_synonym script_state = "Script \<times> SubProcessRunner \<times> globals"


text \<open>\<open>a or b\<close> on an optional string or list: \<open>None\<close> and the empty value are false.\<close>

definition or_else :: "'a list option \<Rightarrow> 'a list \<Rightarrow> 'a list" where
  "or_else a b = (case a of None \<Rightarrow> b | Some x \<Rightarrow> if x = [] then b else x)"

definition release_mode :: "(string, string) dict \<Rightarrow> (string, string) dict" where
  "release_mode d = dict_set ''RELEASE_MODE'' ''True'' d"

definition ensure_loaded :: "environment \<Rightarrow> Release \<Rightarrow> globals \<Rightarrow> (unit, globals) outcome" where
  "ensure_loaded ev rel g = (if \<not> loaded_on_disk rel g then load ev rel g else Return () g)"

definition Script_run ::
  "environment \<Rightarrow> addr \<Rightarrow> string option \<Rightarrow> (string, string) dict option \<Rightarrow> string list option
     \<Rightarrow> script_state \<Rightarrow> (unit, script_state) outcome" where
  "Script_run ev self entry_file_arg env_arg cli_args_arg = (\<lambda>(s, r, g).
     and_then (embed (\<lambda>g'. (s, r, g')) (ensure_loaded ev (release s) g))
       (\<lambda>u (s, r, g).
          and_then
            (embed (\<lambda>(r', g'). (s\<lparr>state := STARTING\<rparr>, r', g'))
               (SubProcessRunner_run ev
                  (or_else entry_file_arg (entry_file (AppConfig.config (config s))))
                  (release_mode (dict_merge (env (AppConfig.config (config s))) (or_else env_arg [])))
                  (or_else cli_args_arg (cli_args (AppConfig.config (config s))))
                  (r, g)))
            (\<lambda>ready (s, r, g).
               Return () (s\<lparr>state := (if ready then ACTIVE else INACTIVE), port := Runner_port r\<rparr>, r,
                          g\<lparr>tasks := tasks g @ [Wait_script self]\<rparr>))))"




text \<open>
  \<open>ScriptHandler.run_script\<close>, the endpoint \<open>POST /script/{name}/{version}/run\<close>, with the
  optional request body \<open>ScriptRunOverrides\<close> as a triple.
\<close>

definition run_script ::
  "environment \<Rightarrow> addr \<Rightarrow> (string option \<times> (string, string) dict option \<times> string list option) option
     \<Rightarrow> script_state \<Rightarrow> (unit, script_state) outcome" where
  "run_script ev self overrides = (\<lambda>(s, r, g).
     if is_running r then Raise (HTTPException 400 ''Script is already running'') (s, r, g)
     else
       case overrides of
         Some (e, v, c) \<Rightarrow> Script_run ev self e v c (s, r, g)
       | None \<Rightarrow> Script_run ev self None None None (s, r, g))"

section \<open>Services: \<open>models/service.py\<close>\<close>

text \<open>
  \<open>history\<close> is not an attribute of the Python class: it lists the values assigned to
  \<open>state\<close>, oldest first, so that the states a service passes through inside one call
  can be told. Every assignment to \<open>state\<close> goes through \<open>set_state\<close>.
\<close>

record Service = ReleaseObject +
  started_at :: "int option"
  enabled :: bool
  log_file :: string
  enabled_file :: string
  history :: "State list"

type_synonym service_state = "Service \<times> SubProcessRunner \<times> globals"

definition set_state :: "State \<Rightarrow> Service \<Rightarrow> Service" where
  "set_state st s = s\<lparr>state := st, history := history s @ [st]\<rparr>"

definition startup_tries :: nat where
  "startup_tries = 5"



definition ensure_log_file_exists :: "string \<Rightarrow> globals \<Rightarrow> globals" where
  "ensure_log_file_exists file g =
     (if os_path_exists (fs g) file then g
      else g\<lparr>fs := (os_makedirs (os_path_dirname file) (fs g))(file \<mapsto> File [])\<rparr>)"

definition log_line :: "environment \<Rightarrow> string \<Rightarrow> string" where
  "log_line ev data = ''['' @ utcnow ev @ ''] [ServiceHandler] '' @ data @ '' '' @ [CHR 0x0A]"

definition write_to_log :: "environment \<Rightarrow> string \<Rightarrow> string \<Rightarrow> globals \<Rightarrow> (unit, globals) outcome" where
  "write_to_log ev file data g =
     (case fs g file of
        None \<Rightarrow> Return () g
      | Some (Dir t) \<Rightarrow> Raise IsADirectoryError g
      | Some (File t) \<Rightarrow> Return () (g\<lparr>fs := (fs g)(file \<mapsto> File (t @ log_line ev data))\<rparr>))"

text \<open>The loop \<open>while not ready and tries < Service._startup_tries\<close> of \<open>run\<close>.\<close>

function startup_loop :: "environment \<Rightarrow> bool \<Rightarrow> nat \<Rightarrow> service_state \<Rightarrow> (bool, service_state) outcome" where
  "startup_loop ev ready tries x =
     (if \<not> ready \<and> tries < startup_tries
      then and_then
             (case x of (s, r, g) \<Rightarrow>
                embed (\<lambda>(r', g'). (s, r', g'))
                  (SubProcessRunner_run ev
                     (entry_file (AppConfig.config (config s)))
                     (release_mode (env (AppConfig.config (config s))))
                     (cli_args (AppConfig.config (config s)))
                     (r, g)))
             (\<lambda>ready' y. startup_loop ev ready' (tries + 1) y)
      else Return ready x)"
  by pat_completeness auto
termination
  by (relation "measure (\<lambda>(ev, ready, tries, x). startup_tries - tries)") auto

declare startup_loop.simps [simp del]

definition Service_run :: "environment \<Rightarrow> addr \<Rightarrow> service_state \<Rightarrow> (unit, service_state) outcome" where
  "Service_run ev self = (\<lambda>(s, r, g).
     and_then (embed (\<lambda>g'. (s, r, g')) (ensure_loaded ev (release s) g))
       (\<lambda>u (s, r, g).
          let g = ensure_log_file_exists (log_file s) g
          in if is_running r then Return () (s, r, g)
             else
               and_then
                 (embed (\<lambda>g'. (set_state STARTING s, r, g'))
                    (write_to_log ev (log_file s) ''Starting service...'' g))
                 (\<lambda>u x.
                    and_then (startup_loop ev False 0 x)
                      (\<lambda>ready (s, r, g).
                         if \<not> ready then
                           and_then
                             (embed (\<lambda>(r', g'). (set_state FAILED_TO_START s, r', g')) (Runner_wait ev (r, g)))
                             (\<lambda>c (s, r, g).
                                embed (\<lambda>g'. (s\<lparr>exit_code := Some c\<rparr>, r, g'))
                                  (write_to_log ev (log_file s)
                                     (''Failed to start process. exit-code: '' @ str_int c) g))
                         else
                           Return () ((set_state ACTIVE s)\<lparr>started_at := Some (time_time ev)\<rparr>, r,
                                      g\<lparr>tasks := tasks g @ [Wait_service self, Log_service self]\<rparr>)))))"



text \<open>
  \<open>_wait_task\<close>, the coroutine that \<open>run\<close> schedules once the service is active: it
  awaits the exit of the process.
\<close>

definition Service_wait_task :: "environment \<Rightarrow> addr \<Rightarrow> service_state \<Rightarrow> (unit, service_state) outcome" where
  "Service_wait_task ev self = (\<lambda>(s, r, g).
     and_then (embed (\<lambda>(r', g'). (s, r', g')) (Runner_wait ev (r, g)))
       (\<lambda>c (s, r, g).
          and_then
            (embed (\<lambda>g'. ((set_state INACTIVE (s\<lparr>exit_code := Some c\<rparr>))\<lparr>started_at := None\<rparr>, r, g'))
               (write_to_log ev (log_file s) (''Process exited with code: '' @ str_int c) g))
            (\<lambda>u (s, r, g). if enabled s then Service_run ev self (s, r, g) else Return () (s, r, g))))"

subsection \<open>Reading the log\<close>

text \<open>
  \<open>str.splitlines\<close>, with and without the line ends. The text of a file is a list of
  characters below 256; the offsets of \<open>seek\<close> count bytes and \<open>read\<close> counts
  characters, which is the same for ASCII text. The file is read as it is stored: the
  translation of carriage returns that the text mode of \<open>open\<close> applies is not modelled,
  so the model is the code on texts without a carriage return. Python ends a line at a line feed, a
  carriage return (with the line feed that follows it, if any), and at the characters
  0x0B, 0x0C, 0x1C, 0x1D, 0x1E and 0x85.
\<close>

definition line_boundary :: "char \<Rightarrow> bool" where
  "line_boundary c =
     (c = CHR 0x0A \<or> c = CHR 0x0B \<or> c = CHR 0x0C \<or> c = CHR 0x0D
      \<or> c = CHR 0x1C \<or> c = CHR 0x1D \<or> c = CHR 0x1E \<or> c = CHR 0x85)"

fun split_lines :: "bool \<Rightarrow> string \<Rightarrow> string \<Rightarrow> string list" where
  "split_lines keepends cur [] = (if cur = [] then [] else [cur])"
| "split_lines keepends cur (c # cs) =
     (case cs of
        d # ds \<Rightarrow>
          if c = CHR 0x0D \<and> d = CHR 0x0A
          then (cur @ (if keepends then [c, d] else [])) # split_lines keepends [] ds
          else if line_boundary c then (cur @ (if keepends then [c] else [])) # split_lines keepends [] cs
          else split_lines keepends (cur @ [c]) cs
      | [] \<Rightarrow>
          if line_boundary c then [cur @ (if keepends then [c] else [])]
          else [cur @ [c]])"

definition splitlines :: "bool \<Rightarrow> string \<Rightarrow> string list" where
  "splitlines keepends t = split_lines keepends [] t"

text \<open>
  \<open>_reverse_read_lines\<close>, an asynchronous generator; the model gives the list of the lines
  it yields, in the order in which it yields them. \<open>segment\<close>, \<open>offset\<close> and
  \<open>remaining_size\<close> are the variables of the loop. An \<open>IndexError\<close> is raised by
  \<open>lines[0]\<close> when the buffer read is empty, which needs a buffer size of zero.
\<close>

function reverse_read_lines_loop ::
  "string \<Rightarrow> nat \<Rightarrow> string option \<Rightarrow> nat \<Rightarrow> int \<Rightarrow> error + string list" where
  "reverse_read_lines_loop txt buf_size segment offset remaining_size =
     (if remaining_size > 0 then
        (let file_size = length txt;
             offset' = min file_size (offset + buf_size);
             buffer = take (nat (min remaining_size (int buf_size))) (drop (file_size - offset') txt);
             remaining' = remaining_size - int buf_size;
             lines = splitlines True buffer
         in if lines = [] then Inl IndexError
            else
              let (yielded, lines') =
                    (case segment of
                       None \<Rightarrow> ([], lines)
                     | Some sg \<Rightarrow>
                         if last buffer = CHR 0x0A then ([sg], lines)
                         else ([], butlast lines @ [last lines @ sg]))
              in case reverse_read_lines_loop txt buf_size (Some (hd lines')) offset' remaining' of
                   Inl e \<Rightarrow> Inl e
                 | Inr rest \<Rightarrow> Inr (yielded @ filter (\<lambda>l. l \<noteq> []) (rev (tl lines')) @ rest))
      else Inr (case segment of None \<Rightarrow> [] | Some sg \<Rightarrow> [sg]))"
  by pat_completeness auto
termination
  apply (relation "measure (\<lambda>(txt, buf_size, segment, offset, remaining_size). nat remaining_size)")
   apply simp
  apply (case_tac buf_size)
   apply (simp_all add: splitlines_def)
  done

declare reverse_read_lines_loop.simps [simp del]

definition reverse_read_lines :: "string \<Rightarrow> nat \<Rightarrow> error + string list" where
  "reverse_read_lines txt buf_size = reverse_read_lines_loop txt buf_size None 0 (int (length txt))"

definition get_logs_of :: "string \<Rightarrow> int \<Rightarrow> error + string" where
  "get_logs_of txt limit =
     (case reverse_read_lines txt 8192 of
        Inl e \<Rightarrow> Inl e
      | Inr yielded \<Rightarrow>
          let logs = concat (take (nat limit) yielded);
              reversed = rev (splitlines False logs)
          in Inr (join_with [CHR 0x0A] reversed))"

definition get_logs :: "Service \<Rightarrow> int \<Rightarrow> globals \<Rightarrow> error + string" where
  "get_logs s limit g =
     (case fs g (log_file s) of
        None \<Rightarrow> Inr []
      | Some (Dir t) \<Rightarrow> Inl IsADirectoryError
      | Some (File t) \<Rightarrow> get_logs_of t limit)"

section \<open>Object index: \<open>ByNameCollection\<close> and \<open>ObjCollection\<close> of \<open>models/collections.py\<close>\<close>

text \<open>
  The collections hold references to script or service objects. Their methods read the
  name, the version and the release of the object they are given; the model passes the
  shared record of the object next to its reference.
\<close>

type_synonym ByNameCollection = "(string, (string, addr) dict) dict"

definition ByName_new_object :: "addr \<Rightarrow> 'a ReleaseObject_scheme \<Rightarrow> ByNameCollection \<Rightarrow> ByNameCollection" where
  "ByName_new_object a obj c =
     (case dict_get c (name obj) of
        Some by_version \<Rightarrow> dict_set (name obj) (dict_set (version obj) a by_version) c
      | None \<Rightarrow> dict_set (name obj) [(version obj, a)] c)"

definition ByName_delete_object :: "'a ReleaseObject_scheme \<Rightarrow> ByNameCollection \<Rightarrow> ByNameCollection" where
  "ByName_delete_object obj c =
     (case dict_get c (name obj) of
        None \<Rightarrow> c
      | Some by_version \<Rightarrow>
          if dict_get by_version (version obj) = None then c
          else if dict_del (version obj) by_version = [] then dict_del (name obj) c
          else dict_set (name obj) (dict_del (version obj) by_version) c)"

definition ByName_get_object :: "string \<Rightarrow> string \<Rightarrow> ByNameCollection \<Rightarrow> addr option" where
  "ByName_get_object nm ver c =
     (case dict_get c nm of None \<Rightarrow> None | Some by_version \<Rightarrow> dict_get by_version ver)"

definition get_all_for_release :: "Release \<Rightarrow> ByNameCollection \<Rightarrow> addr list" where
  "get_all_for_release rel c =
     concat (map (\<lambda>(nm, by_version). map snd (filter (\<lambda>(ver, a). ver = Release_id rel) by_version)) c)"

record ObjCollection =
  by_name :: ByNameCollection
  by_owner_id :: "(int, ByNameCollection) dict"

text \<open>
  \<open>obj.release.shared_to_id if obj.release.shared_to_id else obj.release.owner_id\<close>:
  the condition is false for \<open>None\<close> and for the id 0.
\<close>

definition with_user_id :: "Release \<Rightarrow> int" where
  "with_user_id rel =
     (case shared_to_id rel of
        None \<Rightarrow> Release_owner_id rel
      | Some u \<Rightarrow> if u \<noteq> 0 then u else Release_owner_id rel)"

definition new_object :: "addr \<Rightarrow> 'a ReleaseObject_scheme \<Rightarrow> ObjCollection \<Rightarrow> ObjCollection" where
  "new_object a obj c =
     (let u = with_user_id (release obj);
          c' = (if u = Release_owner_id (release obj) then c\<lparr>by_name := ByName_new_object a obj (by_name c)\<rparr> else c)
      in case dict_get (by_owner_id c') u of
           Some coll \<Rightarrow> c'\<lparr>by_owner_id := dict_set u (ByName_new_object a obj coll) (by_owner_id c')\<rparr>
         | None \<Rightarrow> c'\<lparr>by_owner_id := dict_set u (ByName_new_object a obj []) (by_owner_id c')\<rparr>)"

definition delete_object :: "'a ReleaseObject_scheme \<Rightarrow> ObjCollection \<Rightarrow> error + ObjCollection" where
  "delete_object obj c =
     (let u = with_user_id (release obj);
          c' = (if u = Release_owner_id (release obj) then c\<lparr>by_name := ByName_delete_object obj (by_name c)\<rparr> else c)
      in case dict_get (by_owner_id c') u of
           None \<Rightarrow> Inl KeyError
         | Some coll \<Rightarrow> Inr (c'\<lparr>by_owner_id := dict_set u (ByName_delete_object obj coll) (by_owner_id c')\<rparr>))"

definition get_objects_for_release :: "Release \<Rightarrow> ObjCollection \<Rightarrow> addr list" where
  "get_objects_for_release rel c = concat (map (\<lambda>(owner, coll). get_all_for_release rel coll) (by_owner_id c))"

definition get_object_for_user :: "int \<Rightarrow> string \<Rightarrow> string \<Rightarrow> ObjCollection \<Rightarrow> addr option" where
  "get_object_for_user user_id nm ver c =
     (case dict_get (by_owner_id c) user_id of
        None \<Rightarrow> None
      | Some coll \<Rightarrow> ByName_get_object nm ver coll)"

section \<open>Objects with identity\<close>

text \<open>
  Scripts, services and runners are objects: two references are the same object or two
  objects with states of their own. The program state maps references to objects;
  references from \<open>next_addr\<close> on are not in use. It also holds the two indices of the
  \<open>RepositoryCollection\<close> and, for every repository id, the dictionary \<open>_releases\<close>
  of its \<open>Releases\<close>.
\<close>

record world =
  glob :: globals
  runners :: "addr \<Rightarrow> SubProcessRunner"
  scripts :: "addr \<Rightarrow> Script"
  services :: "addr \<Rightarrow> Service"
  next_addr :: addr
  scripts_index :: ObjCollection
  services_index :: ObjCollection
  releases_of :: "int \<Rightarrow> (string, Release) dict"










section \<open>Release set and repository index\<close>

text \<open>
  \<open>Releases.delete_release\<close>. The delete hooks are callables that get the repository and
  the release and may change any part of the program state; the list of the registered
  hooks is a parameter.
\<close>

type_synonym hook = "Repository \<Rightarrow> Release \<Rightarrow> world \<Rightarrow> (unit, world) outcome"

fun call_hooks :: "hook list \<Rightarrow> Repository \<Rightarrow> Release \<Rightarrow> world \<Rightarrow> (unit, world) outcome" where
  "call_hooks [] rp rel w = Return () w"
| "call_hooks (h # hs) rp rel w = and_then (h rp rel w) (\<lambda>u. call_hooks hs rp rel)"

text \<open>The program state once the release is taken out of the dictionary of its repository.\<close>

definition forgotten :: "Repository \<Rightarrow> Release \<Rightarrow> world \<Rightarrow> world" where
  "forgotten rp rel w =
     w\<lparr>releases_of := (releases_of w)
          (git_service_id rp := dict_del (tag_name rel) (releases_of w (git_service_id rp)))\<rparr>"

definition Releases_delete_release :: "hook list \<Rightarrow> Repository \<Rightarrow> Release \<Rightarrow> world \<Rightarrow> (unit, world) outcome" where
  "Releases_delete_release delete_hooks rp rel w =
     (if dict_get (releases_of w (git_service_id rp)) (tag_name rel) = None then Return () w
      else
        and_then
          (call_hooks delete_hooks rp rel (forgotten rp rel w))
          (\<lambda>u w'. embed (\<lambda>g. w'\<lparr>glob := g\<rparr>) (unload rel (glob w'))))"

text \<open>
  \<open>RepositoryCollection.delete_release\<close>, the delete hook that \<open>new_repo\<close> registers. The
  second loop tests the variable \<open>script\<close> of the first loop: it is the last element of
  \<open>scripts\<close>, and it is unbound when \<open>scripts\<close> is empty.
\<close>

definition schedule :: "task \<Rightarrow> world \<Rightarrow> world" where
  "schedule t w = w\<lparr>glob := (glob w)\<lparr>tasks := tasks (glob w) @ [t]\<rparr>\<rparr>"

fun delete_release_scripts :: "Repository \<Rightarrow> addr list \<Rightarrow> world \<Rightarrow> (unit, world) outcome" where
  "delete_release_scripts rp [] w = Return () w"
| "delete_release_scripts rp (script # rest) w =
     (if git_service_id (repo (release (scripts w script))) = git_service_id rp then
        (let w' = (if is_running (runners w (runner (scripts w script))) then schedule (Kill_script script) w else w)
         in case delete_object (scripts w' script) (scripts_index w') of
              Inl e \<Rightarrow> Raise e w'
            | Inr c \<Rightarrow> delete_release_scripts rp rest (w'\<lparr>scripts_index := c\<rparr>))
      else delete_release_scripts rp rest w)"

fun delete_release_services :: "Repository \<Rightarrow> addr option \<Rightarrow> addr list \<Rightarrow> world \<Rightarrow> (unit, world) outcome" where
  "delete_release_services rp script [] w = Return () w"
| "delete_release_services rp None (service # rest) w = Raise UnboundLocalError w"
| "delete_release_services rp (Some script) (service # rest) w =
     (if git_service_id (repo (release (scripts w script))) = git_service_id rp then
        (let w' = (if is_running (runners w (runner (services w service))) then schedule (Kill_service service) w else w)
         in case delete_object (services w' service) (services_index w') of
              Inl e \<Rightarrow> Raise e w'
            | Inr c \<Rightarrow> delete_release_services rp (Some script) rest (w'\<lparr>services_index := c\<rparr>))
      else delete_release_services rp (Some script) rest w)"

definition RepositoryCollection_delete_release :: hook where
  "RepositoryCollection_delete_release rp rel w =
     (let scripts_found = get_objects_for_release rel (scripts_index w);
          services_found = get_objects_for_release rel (services_index w)
      in and_then (delete_release_scripts rp scripts_found w)
           (\<lambda>u. delete_release_services rp
                   (if scripts_found = [] then None else Some (last scripts_found)) services_found))"

section \<open>Notions used in the statements\<close>

text \<open>
  Whether the \<open>n\<close>-th child, launched by a runner of the given class, is reported as
  started by \<open>_run_impl\<close>: the two Python runners report every launch as started, the
  streamlit runner reports whether the child is still running after the warm-up. And the
  text of the log file of a service.
\<close>

definition ready_child :: "environment \<Rightarrow> RunnerClass \<Rightarrow> nat \<Rightarrow> bool" where
  "ready_child ev c n = (c \<noteq> StreamlitVenvRunner \<or> early_exit (behaviour_of ev n) = None)"

definition log_text :: "Service \<Rightarrow> globals \<Rightarrow> string" where
  "log_text s g = (case fs g (log_file s) of Some (File t) \<Rightarrow> t | _ \<Rightarrow> [])"







text \<open>
  A text whose only line ends are line feeds: no carriage return and none of the other
  characters at which \<open>str.splitlines\<close> ends a line.
\<close>

definition lf_only :: "string \<Rightarrow> bool" where
  "lf_only t = (\<forall>c\<in>set t. line_boundary c \<longrightarrow> c = CHR 0x0A)"


section \<open>Example configurations\<close>

text \<open>
  Concrete inputs on which the theorems below are instantiated. A repository with id 1 of
  the user with id 10 has the tag \<open>v1\<close>, whose tree holds the manifest; the releases
  are kept below \<open>/tmp\<close>.
\<close>

definition example_environment :: "(nat \<Rightarrow> behaviour) \<Rightarrow> environment" where
  "example_environment b =
     \<lparr>behaviour_of = b,
      tagged_tree = (\<lambda>i t. if i = 1 \<and> t = ''v1'' then Some [(''appconfig.yml'', ''apps: {}'')] else None),
      time_time = 1700000000,
      utcnow = ''2023/11/14, 22:13:20'',
      releases_root = ''/tmp''\<rparr>"

text \<open>
  A child that ignores SIGTERM and never exits by itself, a child that exits two time
  units after SIGTERM, and a child that has exited with status 1 before the readiness
  check.
\<close>

definition stubborn :: behaviour where
  "stubborn = \<lparr>early_exit = None, natural_exit = None, on_terminate = None, on_kill = (1, - 9)\<rparr>"

definition obedient :: behaviour where
  "obedient = \<lparr>early_exit = None, natural_exit = None, on_terminate = Some (2, - 15), on_kill = (1, - 9)\<rparr>"


definition example_repository :: Repository where
  "example_repository = \<lparr>git_service_id = 1, name = ''myapp'', owner_id = 10, owner_name = ''alice''\<rparr>"

definition example_config :: "AppType \<Rightarrow> AppConfig" where
  "example_config t =
     \<lparr>app_icon = None, type = t, config = \<lparr>entry_file = ''main.py'', env = [], cli_args = []\<rparr>\<rparr>"

definition example_release :: Release where
  "example_release =
     \<lparr>repo = example_repository, tag_name = ''v1'', time = 1699999999, shared_owner_id = None,
      path = ''/tmp/10/myapp/v1'', apps = [(''svc'', example_config SERVICE)]\<rparr>"

definition empty_globals :: globals where
  "empty_globals =
     \<lparr>fs = (\<lambda>p. None), port_service = PortService_init [8501, 8502, 8503, 8504, 8505],
      launches = [], tasks = [], checkouts = []\<rparr>"

text \<open>The state after the release has been checked out, and after one child was launched.\<close>

definition example_globals :: globals where
  "example_globals = empty_globals\<lparr>fs := (\<lambda>p. None)(''/tmp/10/myapp/v1'' \<mapsto> Dir [(''appconfig.yml'', ''apps: {}'')])\<rparr>"

definition idle_runner :: "RunnerClass \<Rightarrow> SubProcessRunner" where
  "idle_runner c = SubProcessRunner_init c ''/venv/bin/activate'' ''/tmp/10/myapp/v1'' PSEUDO_TERMINAL"

definition running_runner :: "RunnerClass \<Rightarrow> SubProcessRunner" where
  "running_runner c =
     (idle_runner c)\<lparr>proc := Some \<lparr>pid = 0, returncode = None, sigterm_sent = False, sigkill_sent = False\<rparr>,
                     run_start_event := True\<rparr>"

definition running_globals :: globals where
  "running_globals = example_globals\<lparr>launches := [''. /venv/bin/activate; cd /tmp/10/myapp/v1; exec env RELEASE_MODE=True  python -u main.py  '']\<rparr>"


text \<open>
  A service and a script of the example release, and a program state in which the
  service (object 0, with runner 0) is the only object in the indices: the release
  declares one application, of type \<open>service\<close>.
\<close>

definition example_service :: Service where
  "example_service =
     \<lparr>state = INACTIVE, exit_code = None, name = ''svc'', config = example_config SERVICE,
      version = ''v1'', created_at = 1699999999, compound_id = (''svc'', ''v1''), repository_id = 1,
      owner_name = ''alice'', release = example_release, runner = 0, started_at = None, enabled = True,
      log_file = ''/tmp/10/myapp/v1/svc.logs'', enabled_file = ''/tmp/10/myapp/v1/svc.enabled'',
      history = []\<rparr>"

definition example_script :: Script where
  "example_script =
     \<lparr>state = INACTIVE, exit_code = None, name = ''app'', config = example_config PYTHON,
      version = ''v1'', created_at = 1699999999, compound_id = (''app'', ''v1''), repository_id = 1,
      owner_name = ''alice'', release = example_release, runner = 1, port = None, type = PYTHON\<rparr>"

definition example_world :: world where
  "example_world =
     \<lparr>glob = example_globals,
      runners = (\<lambda>a. idle_runner PythonVEnvRunner),
      scripts = (\<lambda>a. example_script),
      services = (\<lambda>a. example_service),
      next_addr = 2,
      scripts_index = \<lparr>by_name = [], by_owner_id = []\<rparr>,
      services_index = new_object 0 example_service \<lparr>by_name = [], by_owner_id = []\<rparr>,
      releases_of = (\<lambda>i. if i = 1 then [(''v1'', example_release)] else [])\<rparr>"

text \<open>A delete hook that raises, and the example state with a given text in the log file.\<close>

definition failing_hook :: hook where
  "failing_hook rp rel w = Raise RuntimeError w"

definition logged :: "string \<Rightarrow> globals" where
  "logged t = example_globals\<lparr>fs := (fs example_globals)(''/tmp/10/myapp/v1/svc.logs'' \<mapsto> File t)\<rparr>"

text \<open>
  A child that is killed from outside (it exits with status \<open>-9\<close> without a signal of
  the program), and the example service once it is active.
\<close>

definition killed :: behaviour where
  "killed = \<lparr>early_exit = None, natural_exit = Some (- 9), on_terminate = Some (0, - 15), on_kill = (0, - 9)\<rparr>"

definition active_service :: Service where
  "active_service = example_service\<lparr>state := ACTIVE, started_at := Some 1700000000, history := [STARTING, ACTIVE]\<rparr>"

section \<open>Properties of the port pool\<close>


lemma sorted_set_init: "sorted_set (ports (PortService_init xs))"
  by (simp add: sorted_set_def PortService_init_def)

lemma sorted_set_release:
  "sorted_set (ports p) \<Longrightarrow> sorted_set (ports (release_port x p))"
  by (auto simp: sorted_set_def release_port_def sorted_insort distinct_insort)

lemma sorted_set_acquire:
  "sorted_set (ports p) \<Longrightarrow> acquire_port p = Inr (x, q) \<Longrightarrow> sorted_set (ports q)"
  by (auto simp: sorted_set_def acquire_port_def split: list.splits)

lemma sorted_hd_Min:
  assumes "sorted (x # xs)"
  shows "Min (set (x # xs)) = x"
proof -
  have "\<forall>y \<in> set (x # xs). x \<le> y"
    using assms by auto
  then show ?thesis
    by (intro Min_eqI) auto
qed

text \<open>
  Claim C3. On a pool that holds at least one port, \<open>acquire_port\<close> returns the
  smallest port of the pool and leaves the pool without it; on an empty pool it fails.
  The failure is the \<open>IndexError\<close> that \<open>SortedSet.pop\<close> raises, which is what the
  specification calls \<open>ExhaustedError\<close>: nothing is returned and the pool is unchanged.
\<close>

theorem acquire_port_smallest:
  assumes "sorted_set (ports p)"
  shows "(ports p \<noteq> [] \<longrightarrow>
            (\<exists>q. acquire_port p = Inr (Min (set (ports p)), q)
                 \<and> set (ports q) = set (ports p) - {Min (set (ports p))}
                 \<and> sorted_set (ports q)))
       \<and> (ports p = [] \<longrightarrow> acquire_port p = Inl IndexError)"
proof (cases "ports p")
  case Nil
  then show ?thesis
    by (simp add: acquire_port_def)
next
  case (Cons x xs)
  have srt: "sorted (x # xs)" and dst: "distinct (x # xs)"
    using assms Cons by (simp_all add: sorted_set_def)
  have m: "Min (set (ports p)) = x"
    using sorted_hd_Min [OF srt] Cons by simp
  have "acquire_port p = Inr (x, p\<lparr>ports := xs\<rparr>)"
    by (simp add: acquire_port_def Cons)
  moreover have "set xs = set (ports p) - {x}"
    using dst Cons by auto
  moreover have "sorted_set xs"
    using srt dst by (simp add: sorted_set_def)
  ultimately show ?thesis
    using m Cons by simp
qed

theorem acquire_port_smallest_witness:
  "sorted_set (ports (PortService_init [8502, 8501, 8503]))
   \<and> Min (set (ports (PortService_init [8502, 8501, 8503]))) = 8501
   \<and> acquire_port (PortService_init [8502, 8501, 8503]) = Inr (8501, \<lparr>ports = [8502, 8503]\<rparr>)
   \<and> acquire_port (PortService_init []) = Inl IndexError"
proof -
  have v: "sorted_set (ports (PortService_init [8502, 8501, 8503]))"
    by (rule sorted_set_init)
  have e: "sorted_set (ports (PortService_init []))"
    by (rule sorted_set_init)
  show ?thesis
    using v acquire_port_smallest [OF v] acquire_port_smallest [OF e]
    by (simp add: PortService_init_def acquire_port_def)
qed

section \<open>Properties of the runner\<close>

lemma truthy_zero: "truthy (Some 0) = truthy None"
  by (simp add: truthy_def)

lemma Runner_wait_no_timeout: "Runner_wait ev x \<noteq> Raise TimeoutError y"
  by (cases x) (auto simp: Runner_wait_def reaped_def Let_def split: option.splits)

lemma signal_impl_no_timeout: "signal_impl hard x \<noteq> Raise TimeoutError y"
  by (cases x) (auto simp: signal_impl_def split: option.splits)

lemma and_then_no_timeout:
  assumes "\<And>y. m \<noteq> Raise TimeoutError y" and "\<And>a s y. f a s \<noteq> Raise TimeoutError y"
  shows "and_then m f \<noteq> Raise TimeoutError y"
  using assms by (cases m) auto

text \<open>
  Claim C10. \<open>terminate(0)\<close> and \<open>kill(0)\<close> take the branch of the missing timeout:
  they send the signal and then await \<open>wait()\<close> without a bound, exactly as
  \<open>terminate(None)\<close> and \<open>kill(None)\<close> do. They never raise \<open>TimeoutError\<close>, which
  is what the bounded \<open>wait_for(0)\<close> would do at once; on a process that ignores SIGTERM
  and does not exit by itself, \<open>terminate(0)\<close> has sent the signal and stays blocked.
\<close>

theorem zero_timeout_is_no_timeout:
  "Runner_terminate ev (Some 0) x = and_then (terminate_impl x) (\<lambda>u. Runner_wait ev)
   \<and> Runner_kill ev (Some 0) x = and_then (kill_impl x) (\<lambda>u. Runner_wait ev)
   \<and> Runner_terminate ev (Some 0) x = Runner_terminate ev None x
   \<and> Runner_kill ev (Some 0) x = Runner_kill ev None x
   \<and> Runner_terminate ev (Some 0) x \<noteq> Raise TimeoutError y
   \<and> Runner_kill ev (Some 0) x \<noteq> Raise TimeoutError y
   \<and> Runner_wait_for ev 0 x = Raise TimeoutError x
   \<and> (proc (fst x) = Some p \<and> returncode p = None \<and> \<not> sigkill_sent p
        \<and> on_terminate (behaviour_of ev (pid p)) = None \<and> natural_exit (behaviour_of ev (pid p)) = None
       \<longrightarrow> Runner_terminate ev (Some 0) x = Blocked ((fst x)\<lparr>proc := Some (p\<lparr>sigterm_sent := True\<rparr>)\<rparr>, snd x))"
proof -
  have t: "Runner_terminate ev (Some 0) x = and_then (terminate_impl x) (\<lambda>u. Runner_wait ev)"
    by (simp add: Runner_terminate_def truthy_def)
  have k: "Runner_kill ev (Some 0) x = and_then (kill_impl x) (\<lambda>u. Runner_wait ev)"
    by (simp add: Runner_kill_def truthy_def)
  have t': "Runner_terminate ev None x = and_then (terminate_impl x) (\<lambda>u. Runner_wait ev)"
    by (simp add: Runner_terminate_def truthy_def)
  have k': "Runner_kill ev None x = and_then (kill_impl x) (\<lambda>u. Runner_wait ev)"
    by (simp add: Runner_kill_def truthy_def)
  have nt: "and_then (terminate_impl x) (\<lambda>u. Runner_wait ev) \<noteq> Raise TimeoutError y"
    by (rule and_then_no_timeout) (simp_all add: terminate_impl_def signal_impl_no_timeout Runner_wait_no_timeout)
  have nk: "and_then (kill_impl x) (\<lambda>u. Runner_wait ev) \<noteq> Raise TimeoutError y"
    by (rule and_then_no_timeout) (simp_all add: kill_impl_def signal_impl_no_timeout Runner_wait_no_timeout)
  have w: "Runner_wait_for ev 0 x = Raise TimeoutError x"
    by (cases x) (simp add: Runner_wait_for_def)
  have b: "Runner_terminate ev (Some 0) x = Blocked ((fst x)\<lparr>proc := Some (p\<lparr>sigterm_sent := True\<rparr>)\<rparr>, snd x)"
    if "proc (fst x) = Some p" "returncode p = None" "\<not> sigkill_sent p"
       "on_terminate (behaviour_of ev (pid p)) = None" "natural_exit (behaviour_of ev (pid p)) = None"
    using that unfolding t
    by (cases x) (simp add: terminate_impl_def signal_impl_def Runner_wait_def exit_status_def)
  show ?thesis
    using t k t' k' nt nk w b by simp
qed

theorem zero_timeout_is_no_timeout_witness:
  "Runner_terminate (example_environment (\<lambda>n. stubborn)) (Some 0) (running_runner PythonVEnvRunner, running_globals)
     = Blocked ((running_runner PythonVEnvRunner)
                  \<lparr>proc := Some \<lparr>pid = 0, returncode = None, sigterm_sent = True, sigkill_sent = False\<rparr>\<rparr>,
                running_globals)
   \<and> Runner_terminate (example_environment (\<lambda>n. stubborn)) (Some 5) (running_runner PythonVEnvRunner, running_globals)
     = Raise TimeoutError ((running_runner PythonVEnvRunner)
                  \<lparr>proc := Some \<lparr>pid = 0, returncode = None, sigterm_sent = True, sigkill_sent = False\<rparr>\<rparr>,
                running_globals)"
  using zero_timeout_is_no_timeout
    [of "example_environment (\<lambda>n. stubborn)" "(running_runner PythonVEnvRunner, running_globals)" _
        "\<lparr>pid = 0, returncode = None, sigterm_sent = False, sigkill_sent = False\<rparr>"]
  by (simp add: example_environment_def stubborn_def running_runner_def idle_runner_def
      SubProcessRunner_init_def Runner_terminate_def truthy_def terminate_impl_def signal_impl_def
      Runner_wait_for_def exit_within_def)

section \<open>Properties of releases\<close>

lemma load_when_loaded: "loaded_on_disk rel g \<Longrightarrow> load ev rel g = Return () g"
  by (simp add: load_def)

lemma load_outcome:
  assumes "\<not> loaded_on_disk rel g"
  shows "load ev rel g =
     (case tagged_tree ev (git_service_id (repo rel)) (tag_name rel) of
        None \<Rightarrow> Raise KeyError (g\<lparr>checkouts := checkouts g @ [(tag_name rel, path rel)]\<rparr>)
      | Some files \<Rightarrow>
          Return () (if files = [] then g\<lparr>checkouts := checkouts g @ [(tag_name rel, path rel)]\<rparr>
                     else g\<lparr>checkouts := checkouts g @ [(tag_name rel, path rel)],
                            fs := (fs g)(path rel \<mapsto> Dir files)\<rparr>))"
  using assms by (simp add: load_def git_copy_tagged_version_def Let_def split: option.splits)

text \<open>
  Claim C6. \<open>load\<close> on a release whose path exists changes nothing, and two calls in a
  row do what one call does, with at most one call of \<open>git_copy_tagged_version\<close>. The
  second part needs a checkout that leaves the path on the disk, that is, a tagged tree
  with at least one file: a release is only ever built for a tag whose tree holds the
  manifest \<open>appconfig.yml\<close>. (When the tag cannot be resolved the first call raises and
  the second is not reached.)
\<close>

theorem load_idempotent:
  "(loaded_on_disk rel g \<longrightarrow> load ev rel g = Return () g)
   \<and> (tagged_tree ev (git_service_id (repo rel)) (tag_name rel) \<noteq> Some [] \<longrightarrow>
        and_then (load ev rel g) (\<lambda>u. load ev rel) = load ev rel g
        \<and> length (checkouts (final_state (and_then (load ev rel g) (\<lambda>u. load ev rel))))
            \<le> Suc (length (checkouts g)))"
proof (cases "loaded_on_disk rel g")
  case True
  then show ?thesis
    by (simp add: load_when_loaded)
next
  case False
  show ?thesis
  proof (cases "tagged_tree ev (git_service_id (repo rel)) (tag_name rel)")
    case None
    then show ?thesis
      using False by (simp add: load_outcome)
  next
    case (Some files)
    show ?thesis
    proof (cases "files = []")
      case True
      then show ?thesis
        using False Some by simp
    next
      case nonempty: False
      let ?g = "g\<lparr>checkouts := checkouts g @ [(tag_name rel, path rel)],
                    fs := (fs g)(path rel \<mapsto> Dir files)\<rparr>"
      have first: "load ev rel g = Return () ?g"
        using False Some nonempty by (simp add: load_outcome)
      have "loaded_on_disk rel ?g"
        by (simp add: loaded_on_disk_def os_path_exists_def)
      then have "load ev rel ?g = Return () ?g"
        by (rule load_when_loaded)
      then show ?thesis
        using False first by simp
    qed
  qed
qed

theorem load_idempotent_witness:
  "\<not> loaded_on_disk example_release empty_globals
   \<and> load (example_environment (\<lambda>n. obedient)) example_release empty_globals
       = Return () (example_globals\<lparr>checkouts := [(''v1'', ''/tmp/10/myapp/v1'')]\<rparr>)
   \<and> and_then (load (example_environment (\<lambda>n. obedient)) example_release empty_globals)
        (\<lambda>u. load (example_environment (\<lambda>n. obedient)) example_release)
       = Return () (example_globals\<lparr>checkouts := [(''v1'', ''/tmp/10/myapp/v1'')]\<rparr>)
   \<and> load (example_environment (\<lambda>n. obedient)) example_release example_globals = Return () example_globals"
  using load_idempotent [of example_release empty_globals "example_environment (\<lambda>n. obedient)"]
    load_idempotent [of example_release example_globals "example_environment (\<lambda>n. obedient)"]
  by (simp add: load_def loaded_on_disk_def os_path_exists_def git_copy_tagged_version_def
      example_environment_def example_release_def example_repository_def empty_globals_def
      example_globals_def)

section \<open>Properties of the release set\<close>

lemma call_hooks_append:
  "call_hooks (hs @ hs') rp rel w = and_then (call_hooks hs rp rel w) (\<lambda>u. call_hooks hs' rp rel)"
proof (induction hs arbitrary: w)
  case Nil
  then show ?case by simp
next
  case (Cons h hs)
  show ?case
    by (cases "h rp rel w") (simp_all add: Cons.IH)
qed

lemma unload_dir:
  "fs g (root_path rel) = Some (Dir t) \<Longrightarrow>
     \<exists>g'. unload rel g = Return () g' \<and> \<not> loaded_on_disk rel g'"
  by (simp add: unload_def shutil_rmtree_def loaded_on_disk_def os_path_exists_def root_path_def below_def)

text \<open>
  Claim C9, as the code has it. \<open>delete_release\<close> takes the release out of the
  dictionary and calls the delete hooks in the order of their registration. The first
  hook that raises ends the call: its exception goes to the caller with the state the
  hook left, the hooks registered after it are not called and the snapshot is not
  removed. When every hook returns, the snapshot directory is removed.
\<close>

theorem delete_release_failing_hook:
  assumes "dict_get (releases_of w (git_service_id rp)) (tag_name rel) \<noteq> None"
  shows "(call_hooks before rp rel (forgotten rp rel w) = Return () w1 \<and> h rp rel w1 = Raise e w2
            \<longrightarrow> Releases_delete_release (before @ h # after) rp rel w = Raise e w2)
       \<and> (call_hooks hooks rp rel (forgotten rp rel w) = Return () w3 \<and> fs (glob w3) (root_path rel) = Some (Dir t)
            \<longrightarrow> (\<exists>w4. Releases_delete_release hooks rp rel w = Return () w4
                       \<and> \<not> loaded_on_disk rel (glob w4)))"
proof (intro conjI impI)
  from assms obtain x where present: "dict_get (releases_of w (git_service_id rp)) (tag_name rel) = Some x"
    by auto
  assume "call_hooks before rp rel (forgotten rp rel w) = Return () w1 \<and> h rp rel w1 = Raise e w2"
  then show "Releases_delete_release (before @ h # after) rp rel w = Raise e w2"
    by (simp add: present Releases_delete_release_def call_hooks_append)
next
  from assms obtain x where present: "dict_get (releases_of w (git_service_id rp)) (tag_name rel) = Some x"
    by auto
  assume a: "call_hooks hooks rp rel (forgotten rp rel w) = Return () w3 \<and> fs (glob w3) (root_path rel) = Some (Dir t)"
  then obtain g' where g': "unload rel (glob w3) = Return () g'" "\<not> loaded_on_disk rel g'"
    using unload_dir by blast
  have "Releases_delete_release hooks rp rel w = Return () (w3\<lparr>glob := g'\<rparr>)"
    using a g' by (simp add: present Releases_delete_release_def)
  then show "\<exists>w4. Releases_delete_release hooks rp rel w = Return () w4 \<and> \<not> loaded_on_disk rel (glob w4)"
    using g' by simp
qed

theorem delete_release_failing_hook_witness:
  "Releases_delete_release [failing_hook] example_repository example_release example_world
     = Raise RuntimeError (forgotten example_repository example_release example_world)
   \<and> (\<exists>w4. Releases_delete_release [] example_repository example_release example_world = Return () w4
            \<and> \<not> loaded_on_disk example_release (glob w4))"
proof -
  have present: "dict_get (releases_of example_world (git_service_id example_repository)) (tag_name example_release) \<noteq> None"
    by (simp add: example_world_def example_repository_def example_release_def dict_get_def)
  have disk: "fs (glob (forgotten example_repository example_release example_world)) (root_path example_release)
      = Some (Dir [(''appconfig.yml'', ''apps: {}'')])"
    by (simp add: forgotten_def example_world_def example_globals_def root_path_def example_release_def)
  show ?thesis
    using delete_release_failing_hook [OF present, of "[]"
        "forgotten example_repository example_release example_world" failing_hook RuntimeError
        "forgotten example_repository example_release example_world" "[]" "[]"
        "forgotten example_repository example_release example_world" "[(''appconfig.yml'', ''apps: {}'')]"]
      disk
    by (simp add: failing_hook_def)
qed

text \<open>
  The claim as the specification states it fails: with one registered hook that raises,
  \<open>delete_release\<close> raises and the snapshot of the release is still on the disk.
\<close>

theorem failing_hook_keeps_snapshot:
  "Releases_delete_release [failing_hook] example_repository example_release example_world
     = Raise RuntimeError (forgotten example_repository example_release example_world)
   \<and> loaded_on_disk example_release (glob (forgotten example_repository example_release example_world))"
  by (simp add: Releases_delete_release_def failing_hook_def forgotten_def example_world_def
      example_repository_def example_release_def dict_get_def loaded_on_disk_def os_path_exists_def
      example_globals_def)

section \<open>Reading a log whose lines end with a line feed\<close>

text \<open>
  On a text whose only line ends are line feeds, \<open>_reverse_read_lines\<close> yields the lines
  of the text, last line first, for every buffer size above zero. When every line of the
  log ends with a line feed, \<open>get_logs\<close> returns the last \<open>limit\<close> lines in the
  order of the file, and all lines when there are fewer.
\<close>

lemma lf_only_Nil: "lf_only []"
  by (simp add: lf_only_def)

lemma lf_only_Cons: "lf_only (c # cs) = ((line_boundary c \<longrightarrow> c = CHR 0x0A) \<and> lf_only cs)"
  by (simp add: lf_only_def)

lemma lf_only_append: "lf_only (a @ b) = (lf_only a \<and> lf_only b)"
  by (auto simp: lf_only_def)

lemma lf_only_subset: "lf_only t \<Longrightarrow> set u \<subseteq> set t \<Longrightarrow> lf_only u"
  by (auto simp: lf_only_def)

lemma line_boundary_lf: "line_boundary (CHR 0x0A)"
  by (simp add: line_boundary_def)

lemma split_lines_lf:
  assumes "lf_only (c # cs)"
  shows "split_lines True cur (c # cs) =
           (if c = CHR 0x0A then (cur @ [c]) # split_lines True [] cs
            else split_lines True (cur @ [c]) cs)"
proof (cases cs)
  case Nil
  then show ?thesis
    by simp
next
  case (Cons d ds)
  have cr: "c \<noteq> CHR 0x0D"
    using assms by (auto simp: lf_only_Cons line_boundary_def)
  have lf: "line_boundary c = (c = CHR 0x0A)"
    using assms by (auto simp: lf_only_Cons line_boundary_lf)
  have "split_lines True cur (c # d # ds) =
          (if line_boundary c then (cur @ [c]) # split_lines True [] (d # ds)
           else split_lines True (cur @ [c]) (d # ds))"
    by (subst split_lines.simps(2)) (simp add: cr del: split_lines.simps)
  then show ?thesis
    unfolding Cons lf .
qed

lemma split_lines_cur:
  "lf_only t \<Longrightarrow>
   split_lines True cur t =
     (case split_lines True [] t of
        [] \<Rightarrow> (if cur = [] then [] else [cur])
      | x # xs \<Rightarrow> (cur @ x) # xs)"
proof (induction t arbitrary: cur)
  case Nil
  then show ?case by simp
next
  case (Cons c cs)
  have cs: "lf_only cs"
    using Cons.prems by (simp add: lf_only_Cons)
  show ?case
  proof (cases "c = CHR 0x0A")
    case True
    show ?thesis
      unfolding split_lines_lf [OF Cons.prems] using True by simp
  next
    case False
    show ?thesis
      unfolding split_lines_lf [OF Cons.prems]
      using False Cons.IH [OF cs, of "cur @ [c]"] Cons.IH [OF cs, of "[c]"]
      by (simp split: list.splits)
  qed
qed

lemma splitlines_Nil: "splitlines True [] = []"
  by (simp add: splitlines_def)

lemma splitlines_Cons:
  assumes "lf_only (c # cs)"
  shows "splitlines True (c # cs) =
           (if c = CHR 0x0A then [c] # splitlines True cs
            else (case splitlines True cs of [] \<Rightarrow> [[c]] | x # xs \<Rightarrow> (c # x) # xs))"
proof -
  have cs: "lf_only cs"
    using assms by (simp add: lf_only_Cons)
  show ?thesis
    unfolding splitlines_def split_lines_lf [OF assms]
    using split_lines_cur [OF cs, of "[c]"]
    by (simp split: list.splits)
qed

lemma splitlines_empty: "lf_only t \<Longrightarrow> (splitlines True t = []) = (t = [])"
  by (cases t) (simp_all add: splitlines_Nil splitlines_Cons split: list.splits)

lemma splitlines_concat: "lf_only t \<Longrightarrow> concat (splitlines True t) = t"
proof (induction t)
  case Nil
  then show ?case by (simp add: splitlines_Nil)
next
  case (Cons c cs)
  then show ?case
    by (auto simp: splitlines_Cons lf_only_Cons splitlines_empty split: list.splits)
qed

lemma splitlines_nonempty: "lf_only t \<Longrightarrow> [] \<notin> set (splitlines True t)"
proof (induction t)
  case Nil
  then show ?case by (simp add: splitlines_Nil)
next
  case (Cons c cs)
  then show ?case
    by (auto simp: splitlines_Cons lf_only_Cons split: list.splits)
qed

lemma splitlines_first:
  "lf_only t \<Longrightarrow> splitlines True t = x # xs \<Longrightarrow>
   x \<noteq> [] \<and> splitlines True x = [x] \<and> (xs \<noteq> [] \<longrightarrow> last x = CHR 0x0A)
   \<and> splitlines True (concat xs) = xs"
proof (induction t arbitrary: x xs)
  case Nil
  then show ?case by (simp add: splitlines_Nil)
next
  case (Cons c cs)
  have cs: "lf_only cs"
    using Cons.prems(1) by (simp add: lf_only_Cons)
  show ?case
  proof (cases "c = CHR 0x0A")
    case True
    then have "x = [c]" "xs = splitlines True cs"
      using Cons.prems by (simp_all add: splitlines_Cons)
    then show ?thesis
      using True cs by (simp add: splitlines_concat splitlines_Cons lf_only_Cons lf_only_Nil splitlines_Nil)
  next
    case False
    show ?thesis
    proof (cases "splitlines True cs")
      case Nil
      then have "x = [c]" "xs = []"
        using Cons.prems False by (simp_all add: splitlines_Cons)
      then show ?thesis
        using False Cons.prems(1) by (simp add: splitlines_Cons lf_only_Cons lf_only_Nil splitlines_Nil)
    next
      case (Cons y ys)
      then have x: "x = c # y" "xs = ys"
        using Cons.prems False by (simp_all add: splitlines_Cons)
      have ih: "y \<noteq> [] \<and> splitlines True y = [y] \<and> (ys \<noteq> [] \<longrightarrow> last y = CHR 0x0A)
        \<and> splitlines True (concat ys) = ys"
        using Cons.IH [OF cs Cons] .
      have "set y \<subseteq> set cs"
      proof -
        have "set (concat (y # ys)) \<subseteq> set cs"
          using splitlines_concat [OF cs] Cons by simp
        then show ?thesis
          by simp
      qed
      then have "lf_only (c # y)"
        using Cons.prems(1) by (auto simp: lf_only_def)
      then show ?thesis
        using ih x False by (simp add: splitlines_Cons)
    qed
  qed
qed

lemma splitlines_append_lf:
  "lf_only (a @ b) \<Longrightarrow> a \<noteq> [] \<Longrightarrow> last a = CHR 0x0A \<Longrightarrow>
   splitlines True (a @ b) = splitlines True a @ splitlines True b"
proof (induction a)
  case Nil
  then show ?case by simp
next
  case (Cons c cs)
  have whole: "lf_only (c # (cs @ b))" and part: "lf_only (c # cs)" and rest: "lf_only cs"
    using Cons.prems(1) by (simp_all add: lf_only_Cons lf_only_append)
  have A: "splitlines True ((c # cs) @ b) =
      (if c = CHR 0x0A then [c] # splitlines True (cs @ b)
       else (case splitlines True (cs @ b) of [] \<Rightarrow> [[c]] | x # xs \<Rightarrow> (c # x) # xs))"
    using splitlines_Cons [OF whole] by simp
  have B: "splitlines True (c # cs) =
      (if c = CHR 0x0A then [c] # splitlines True cs
       else (case splitlines True cs of [] \<Rightarrow> [[c]] | x # xs \<Rightarrow> (c # x) # xs))"
    by (rule splitlines_Cons [OF part])
  show ?case
  proof (cases "cs = []")
    case True
    then have "c = CHR 0x0A"
      using Cons.prems(3) by simp
    then show ?thesis
      unfolding A B using True by (simp add: splitlines_Nil)
  next
    case False
    have "lf_only (cs @ b)"
      using whole by (simp add: lf_only_Cons)
    moreover have "last cs = CHR 0x0A"
      using Cons.prems(3) False by simp
    ultimately have ih: "splitlines True (cs @ b) = splitlines True cs @ splitlines True b"
      using Cons.IH False by blast
    obtain x xs where xs: "splitlines True cs = x # xs"
      using False rest by (cases "splitlines True cs") (auto simp: splitlines_empty)
    show ?thesis
      unfolding A B ih xs by simp
  qed
qed

lemma splitlines_append_open:
  "lf_only (a @ b) \<Longrightarrow> a \<noteq> [] \<Longrightarrow> last a \<noteq> CHR 0x0A \<Longrightarrow> b \<noteq> [] \<Longrightarrow>
   splitlines True (a @ b) =
     butlast (splitlines True a) @ [last (splitlines True a) @ hd (splitlines True b)] @ tl (splitlines True b)"
proof (induction a)
  case Nil
  then show ?case by simp
next
  case (Cons c cs)
  have whole: "lf_only (c # (cs @ b))" and part: "lf_only (c # cs)" and rest: "lf_only cs" and b: "lf_only b"
    using Cons.prems(1) by (simp_all add: lf_only_Cons lf_only_append)
  have A: "splitlines True ((c # cs) @ b) =
      (if c = CHR 0x0A then [c] # splitlines True (cs @ b)
       else (case splitlines True (cs @ b) of [] \<Rightarrow> [[c]] | x # xs \<Rightarrow> (c # x) # xs))"
    using splitlines_Cons [OF whole] by simp
  have B: "splitlines True (c # cs) =
      (if c = CHR 0x0A then [c] # splitlines True cs
       else (case splitlines True cs of [] \<Rightarrow> [[c]] | x # xs \<Rightarrow> (c # x) # xs))"
    by (rule splitlines_Cons [OF part])
  obtain y ys where ys: "splitlines True b = y # ys"
    using b Cons.prems(4) by (cases "splitlines True b") (auto simp: splitlines_empty)
  show ?case
  proof (cases "cs = []")
    case True
    then have "c \<noteq> CHR 0x0A"
      using Cons.prems(3) by simp
    then show ?thesis
      unfolding A B using True ys by (simp add: splitlines_Nil)
  next
    case False
    have "lf_only (cs @ b)"
      using whole by (simp add: lf_only_Cons)
    moreover have "last cs \<noteq> CHR 0x0A"
      using Cons.prems(3) False by simp
    ultimately have ih: "splitlines True (cs @ b) =
        butlast (splitlines True cs) @ [last (splitlines True cs) @ hd (splitlines True b)] @ tl (splitlines True b)"
      using Cons.IH False Cons.prems(4) by blast
    obtain x xs where xs: "splitlines True cs = x # xs"
      using False rest by (cases "splitlines True cs") (auto simp: splitlines_empty)
    show ?thesis
      unfolding A B ih xs ys by (cases xs) simp_all
  qed
qed

lemma splitlines_append_first:
  assumes "lf_only (a @ b)" and "b \<noteq> []"
  shows "splitlines True (a @ b) = splitlines True (a @ hd (splitlines True b)) @ tl (splitlines True b)"
proof -
  have b: "lf_only b"
    using assms(1) by (simp add: lf_only_append)
  obtain x xs where xs: "splitlines True b = x # xs"
    using b assms(2) by (cases "splitlines True b") (auto simp: splitlines_empty)
  have split: "b = x @ concat xs"
    using splitlines_concat [OF b] xs by simp
  have first: "x \<noteq> [] \<and> splitlines True x = [x] \<and> (xs \<noteq> [] \<longrightarrow> last x = CHR 0x0A)
      \<and> splitlines True (concat xs) = xs"
    using splitlines_first [OF b xs] .
  show ?thesis
  proof (cases "xs = []")
    case True
    then show ?thesis
      using split xs by simp
  next
    case False
    have "lf_only ((a @ x) @ concat xs)"
      using assms(1) split by simp
    then have "splitlines True ((a @ x) @ concat xs) = splitlines True (a @ x) @ splitlines True (concat xs)"
      using first False by (intro splitlines_append_lf) simp_all
    then show ?thesis
      using split xs first by simp
  qed
qed

lemma splitlines_hd:
  assumes "lf_only q" and "q \<noteq> []"
  shows "hd (splitlines True q) \<noteq> [] \<and> splitlines True (hd (splitlines True q)) = [hd (splitlines True q)]
         \<and> lf_only (hd (splitlines True q))"
proof -
  obtain x xs where xs: "splitlines True q = x # xs"
    using assms by (cases "splitlines True q") (auto simp: splitlines_empty)
  have "set (concat (x # xs)) \<subseteq> set q"
    using splitlines_concat [OF assms(1)] xs by simp
  then have "lf_only x"
    using assms(1) by (auto simp: lf_only_def)
  then show ?thesis
    using splitlines_first [OF assms(1) xs] xs by simp
qed

lemma filter_lines: "lf_only t \<Longrightarrow> filter (\<lambda>l. l \<noteq> []) (rev (tl (splitlines True t))) = rev (tl (splitlines True t))"
  using splitlines_nonempty [of t]
  by (cases "splitlines True t") (auto simp: filter_id_conv)

lemma reverse_read_lines_loop_segment:
  assumes whole_lf: "lf_only txt" and buf: "0 < buf"
  shows "txt = P @ Q \<Longrightarrow> Q \<noteq> [] \<Longrightarrow> offset = length Q \<Longrightarrow>
         (if P = [] then remaining \<le> 0 else remaining = int (length P)) \<Longrightarrow>
         \<exists>Z. reverse_read_lines_loop txt buf (Some (hd (splitlines True Q))) offset remaining = Inr Z
            \<and> rev Z = splitlines True (P @ hd (splitlines True Q))"
proof (induction "length P" arbitrary: P Q offset remaining rule: less_induct)
  case less
  define sg where "sg = hd (splitlines True Q)"
  have Q: "lf_only Q" and P: "lf_only P"
    using whole_lf less.prems(1) by (simp_all add: lf_only_append)
  have sg: "sg \<noteq> []" "splitlines True sg = [sg]" "lf_only sg"
    using splitlines_hd [OF Q less.prems(2)] by (simp_all add: sg_def)
  show ?case
  proof (cases "P = []")
    case True
    then have "remaining \<le> 0"
      using less.prems(4) by simp
    then have "reverse_read_lines_loop txt buf (Some sg) offset remaining = Inr [sg]"
      by (subst reverse_read_lines_loop.simps) simp
    then show ?thesis
      using True sg by (simp add: sg_def)
  next
    case False
    define B where "B = drop (length P - buf) P"
    define P' where "P' = take (length P - buf) P"
    have split: "P = P' @ B"
      by (simp add: B_def P'_def)
    have smaller: "length P - buf < length P"
      using False buf by (cases P) auto
    then have B: "B \<noteq> []" "length B = min (length P) buf"
      by (auto simp: B_def)
    have lfB: "lf_only B" and lfP': "lf_only P'"
      using P split by (simp_all add: lf_only_append)
    have remaining: "remaining = int (length P)" "0 < remaining"
      using less.prems(4) False by simp_all
    have offset': "min (length txt) (offset + buf) = length (B @ Q)"
      using less.prems(1,3) B(2) by auto
    have "drop (length txt - length (B @ Q)) txt = B @ Q"
      using less.prems(1) split by simp
    moreover have "nat (min remaining (int buf)) = length B"
      using remaining(1) B(2) by auto
    ultimately have buffer:
      "take (nat (min remaining (int buf))) (drop (length txt - length (B @ Q)) txt) = B"
      by simp
    have lines: "splitlines True B \<noteq> []"
      using B(1) lfB by (simp add: splitlines_empty)
    have step: "reverse_read_lines_loop txt buf (Some sg) offset remaining =
        (let (yielded, lines') =
               (if last B = CHR 0x0A then ([sg], splitlines True B)
                else ([], butlast (splitlines True B) @ [last (splitlines True B) @ sg]))
         in case reverse_read_lines_loop txt buf (Some (hd lines')) (length (B @ Q)) (remaining - int buf) of
              Inl e \<Rightarrow> Inl e
            | Inr rest \<Rightarrow> Inr (yielded @ filter (\<lambda>l. l \<noteq> []) (rev (tl lines')) @ rest))"
      by (subst reverse_read_lines_loop.simps) (simp add: remaining(2) buffer offset' lines Let_def del: length_append)
    have smaller: "length P' < length P"
      using smaller by (simp add: P'_def)
    have rest: "if P' = [] then remaining - int buf \<le> 0 else remaining - int buf = int (length P')"
      using remaining(1) by (auto simp: P'_def)
    have whole: "txt = P' @ (B @ Q)"
      using less.prems(1) split by simp
    have ih: "\<exists>Z. reverse_read_lines_loop txt buf (Some (hd (splitlines True (B @ Q)))) (length (B @ Q)) (remaining - int buf) = Inr Z
            \<and> rev Z = splitlines True (P' @ hd (splitlines True (B @ Q)))"
      using less.hyps [OF smaller whole _ refl rest] B(1) by simp
    have lfBQ: "lf_only (B @ Q)" and lfBsg: "lf_only (B @ sg)" and lfPsg: "lf_only (P @ sg)"
      and lfP'Bsg: "lf_only (P' @ (B @ sg))" and lfP'B: "lf_only (P' @ B)"
      using lfB Q sg(3) P lfP' by (simp_all add: lf_only_append)
    show ?thesis
    proof (cases "last B = CHR 0x0A")
      case True
      have "splitlines True (B @ Q) = splitlines True B @ splitlines True Q"
        using lfBQ B(1) True by (rule splitlines_append_lf)
      then have hd: "hd (splitlines True (B @ Q)) = hd (splitlines True B)"
        using lines by simp
      obtain Z where Z: "reverse_read_lines_loop txt buf (Some (hd (splitlines True B))) (length (B @ Q)) (remaining - int buf) = Inr Z"
        "rev Z = splitlines True (P' @ hd (splitlines True B))"
        using ih unfolding hd by blast
      have result: "reverse_read_lines_loop txt buf (Some sg) offset remaining = Inr ([sg] @ rev (tl (splitlines True B)) @ Z)"
        unfolding step using True Z(1) by (simp add: filter_lines [OF lfB] del: length_append)
      have "splitlines True (P @ sg) = splitlines True P @ splitlines True sg"
        using lfPsg False True split B(1) by (intro splitlines_append_lf) simp_all
      moreover have "splitlines True P = splitlines True (P' @ hd (splitlines True B)) @ tl (splitlines True B)"
        unfolding split using lfP'B B(1) by (rule splitlines_append_first)
      ultimately have "rev ([sg] @ rev (tl (splitlines True B)) @ Z) = splitlines True (P @ sg)"
        using Z(2) sg(2) by simp
      then show ?thesis
        using result unfolding sg_def by blast
    next
      case unterminated: False
      define lines' where "lines' = butlast (splitlines True B) @ [last (splitlines True B) @ sg]"
      have Bsg: "splitlines True (B @ sg) = lines'"
        using splitlines_append_open [OF lfBsg B(1) unterminated sg(1)] sg(2) by (simp add: lines'_def)
      have "splitlines True (B @ Q) = lines' @ tl (splitlines True Q)"
        using splitlines_append_open [OF lfBQ B(1) unterminated less.prems(2)] by (simp add: lines'_def sg_def)
      then have hd: "hd (splitlines True (B @ Q)) = hd lines'"
        by (simp add: lines'_def hd_append)
      obtain Z where Z: "reverse_read_lines_loop txt buf (Some (hd lines')) (length (B @ Q)) (remaining - int buf) = Inr Z"
        "rev Z = splitlines True (P' @ hd lines')"
        using ih unfolding hd by blast
      have "filter (\<lambda>l. l \<noteq> []) (rev (tl lines')) = rev (tl lines')"
        using filter_lines [OF lfBsg] unfolding Bsg .
      then have result: "reverse_read_lines_loop txt buf (Some sg) offset remaining = Inr (rev (tl lines') @ Z)"
        unfolding step using unterminated Z(1) by (simp add: lines'_def del: length_append)
      have "splitlines True (P' @ (B @ sg)) = splitlines True (P' @ hd lines') @ tl lines'"
        using splitlines_append_first [OF lfP'Bsg] B(1) unfolding Bsg by simp
      then have "rev (rev (tl lines') @ Z) = splitlines True (P @ sg)"
        using Z(2) split by simp
      then show ?thesis
        using result unfolding sg_def by blast
    qed
  qed
qed

lemma reverse_read_lines_lf:
  assumes whole_lf: "lf_only txt" and buf: "0 < buf"
  shows "\<exists>Z. reverse_read_lines txt buf = Inr Z \<and> rev Z = splitlines True txt"
proof (cases "txt = []")
  case True
  then show ?thesis
    by (simp add: reverse_read_lines_def reverse_read_lines_loop.simps splitlines_Nil)
next
  case False
  define B where "B = drop (length txt - buf) txt"
  define P' where "P' = take (length txt - buf) txt"
  have split: "txt = P' @ B"
    by (simp add: B_def P'_def)
  have "length txt - buf < length txt"
    using False buf by (cases "txt") auto
  then have B: "B \<noteq> []" "length B = min (length txt) buf"
    by (auto simp: B_def)
  have lfB: "lf_only B"
    using whole_lf split by (metis lf_only_append)
  have lines: "splitlines True B \<noteq> []"
    using B(1) lfB by (simp add: splitlines_empty)
  have offset': "min (length txt) buf = length B"
    using B(2) by simp
  have "length txt = length P' + length B"
    using arg_cong [OF split, of length] by simp
  then have "drop (length txt - length B) txt = drop (length P') txt"
    by simp
  also have "\<dots> = B"
    by (subst split) simp
  finally have "drop (length txt - length B) txt = B" .
  moreover have "nat (min (int (length txt)) (int buf)) = length B"
    using B(2) by auto
  ultimately have buffer:
    "take (nat (min (int (length txt)) (int buf))) (drop (length txt - length B) txt) = B"
    by simp
  have pos: "0 < int (length txt)"
    using False by simp
  have step: "reverse_read_lines_loop txt buf None 0 (int (length txt)) =
      (case reverse_read_lines_loop txt buf (Some (hd (splitlines True B))) (length B) (int (length txt) - int buf) of
         Inl e \<Rightarrow> Inl e
       | Inr rest \<Rightarrow> Inr (rev (tl (splitlines True B)) @ rest))"
    by (subst reverse_read_lines_loop.simps) (simp add: False buffer offset' Let_def lines filter_lines [OF lfB] cong: sum.case_cong)
  have rest: "if P' = [] then int (length txt) - int buf \<le> 0 else int (length txt) - int buf = int (length P')"
    by (auto simp: P'_def)
  obtain Z where Z: "reverse_read_lines_loop txt buf (Some (hd (splitlines True B))) (length B) (int (length txt) - int buf) = Inr Z"
    "rev Z = splitlines True (P' @ hd (splitlines True B))"
    using reverse_read_lines_loop_segment [OF whole_lf buf split B(1) refl rest] by blast
  have "splitlines True (P' @ B) = splitlines True (P' @ hd (splitlines True B)) @ tl (splitlines True B)"
    using whole_lf B(1) unfolding split by (rule splitlines_append_first)
  then show ?thesis
    unfolding reverse_read_lines_def step using Z split by simp
qed

lemma split_lines_step:
  assumes "c \<noteq> CHR 0x0D"
  shows "split_lines k cur (c # cs) =
           (if line_boundary c then (cur @ (if k then [c] else [])) # split_lines k [] cs
            else split_lines k (cur @ [c]) cs)"
proof (cases cs)
  case Nil
  then show ?thesis
    by simp
next
  case (Cons d ds)
  show ?thesis
    unfolding Cons by (subst split_lines.simps(2)) (simp add: assms del: split_lines.simps)
qed

lemma split_lines_line:
  "\<forall>c\<in>set l. \<not> line_boundary c \<Longrightarrow>
   split_lines k cur (l @ CHR 0x0A # t) = (cur @ l @ (if k then [CHR 0x0A] else [])) # split_lines k [] t"
proof (induction l arbitrary: cur)
  case Nil
  show ?case
    using split_lines_step [of "CHR 0x0A" k cur t] by (simp add: line_boundary_lf del: split_lines.simps)
next
  case (Cons c l)
  have "c \<noteq> CHR 0x0D" and "\<not> line_boundary c"
    using Cons.prems by (auto simp: line_boundary_def)
  then have "split_lines k cur ((c # l) @ CHR 0x0A # t) = split_lines k (cur @ [c]) (l @ CHR 0x0A # t)"
    using split_lines_step [of c k cur "l @ CHR 0x0A # t"] by (simp del: split_lines.simps)
  then show ?case
    using Cons.IH [of "cur @ [c]"] Cons.prems by (simp del: split_lines.simps)
qed

lemma splitlines_text:
  "\<forall>l\<in>set ls. \<forall>c\<in>set l. \<not> line_boundary c \<Longrightarrow>
   splitlines k (concat (map (\<lambda>l. l @ [CHR 0x0A]) ls)) = map (\<lambda>l. l @ (if k then [CHR 0x0A] else [])) ls"
proof (induction ls)
  case Nil
  then show ?case
    by (simp add: splitlines_def)
next
  case (Cons l ls)
  then show ?case
    using split_lines_line [of l k "[]" "concat (map (\<lambda>l. l @ [CHR 0x0A]) ls)"]
    by (simp add: splitlines_def del: split_lines.simps)
qed

lemma lf_only_text:
  "\<forall>l\<in>set ls. \<forall>c\<in>set l. \<not> line_boundary c \<Longrightarrow> lf_only (concat (map (\<lambda>l. l @ [CHR 0x0A]) ls))"
  by (auto simp: lf_only_def)

lemma get_logs_of_terminated:
  assumes "\<forall>l\<in>set ls. \<forall>c\<in>set l. \<not> line_boundary c"
  shows "get_logs_of (concat (map (\<lambda>l. l @ [CHR 0x0A]) ls)) limit
           = Inr (join_with [CHR 0x0A] (drop (length ls - nat limit) ls))"
proof -
  define t where "t = concat (map (\<lambda>l. l @ [CHR 0x0A]) ls)"
  obtain Z where Z: "reverse_read_lines t 8192 = Inr Z" "rev Z = splitlines True t"
    using reverse_read_lines_lf [of t 8192] lf_only_text [OF assms] unfolding t_def by auto
  have "rev Z = map (\<lambda>l. l @ [CHR 0x0A]) ls"
    using Z(2) splitlines_text [OF assms, of True] by (simp add: t_def)
  then have "Z = map (\<lambda>l. l @ [CHR 0x0A]) (rev ls)"
    by (metis rev_map rev_rev_ident)
  then have taken: "concat (take (nat limit) Z) = concat (map (\<lambda>l. l @ [CHR 0x0A]) (take (nat limit) (rev ls)))"
    by (simp add: take_map)
  have "\<forall>l\<in>set (take (nat limit) (rev ls)). \<forall>c\<in>set l. \<not> line_boundary c"
    using assms by (auto dest: in_set_takeD)
  then have "splitlines False (concat (take (nat limit) Z)) = take (nat limit) (rev ls)"
    unfolding taken using splitlines_text [of "take (nat limit) (rev ls)" False] by simp
  then show ?thesis
    using Z(1) by (simp add: get_logs_of_def t_def [symmetric] rev_take)
qed

lemma get_logs_terminated:
  assumes "\<forall>l\<in>set ls. \<forall>c\<in>set l. \<not> line_boundary c"
      and "fs g (log_file s) = Some (File (concat (map (\<lambda>l. l @ [CHR 0x0A]) ls)))"
  shows "get_logs s limit g = Inr (join_with [CHR 0x0A] (drop (length ls - nat limit) ls))"
  using get_logs_of_terminated [OF assms(1)] assms(2) by (simp add: get_logs_def)

section \<open>Evaluations of \<open>RepositoryCollection.delete_release\<close> and \<open>get_logs\<close>\<close>

text \<open>
  Claim C5 fails on the code. For a release that declares a service and no script, the
  list \<open>scripts\<close> is empty, the variable \<open>script\<close> that the second loop tests is
  unbound and \<open>delete_release\<close> raises: the service stays in the index. Called as the
  delete hook of the release set, the exception also keeps \<open>unload\<close> from running, and
  the snapshot stays on the disk.
\<close>

theorem delete_release_unbound_script:
  "get_objects_for_release example_release (services_index example_world) = [0]
   \<and> RepositoryCollection_delete_release example_repository example_release example_world
       = Raise UnboundLocalError example_world
   \<and> get_object_for_user 10 ''svc'' ''v1'' (services_index example_world) = Some 0
   \<and> Releases_delete_release [RepositoryCollection_delete_release] example_repository example_release example_world
       = Raise UnboundLocalError (forgotten example_repository example_release example_world)
   \<and> loaded_on_disk example_release (glob (forgotten example_repository example_release example_world))"
  by (simp add: RepositoryCollection_delete_release_def get_objects_for_release_def get_all_for_release_def
      get_object_for_user_def ByName_get_object_def ByName_new_object_def new_object_def with_user_id_def
      shared_to_id_def Release_owner_id_def Release_id_def Releases_delete_release_def forgotten_def
      example_world_def example_service_def example_repository_def example_release_def dict_get_def
      loaded_on_disk_def os_path_exists_def example_globals_def Let_def)

text \<open>
  Claim C8 fails on the code. The log file holds the two lines \<open>a\<close> and \<open>b\<close>, the
  last one without a line end (the log task appends each line that it reads from the
  process, and the last line read need not end with a line feed). The lines are yielded as \<open>b\<close> and \<open>a\<close> with its line
  feed, \<open>get_logs\<close> concatenates them before it splits again, and with the limit 2 it
  returns the single line \<open>ba\<close> where the two newest lines in their order are \<open>a\<close>,
  \<open>b\<close>. When the last line ends with a line feed as well, the result is the two lines
  in their order, which is the instance \<open>[a, b]\<close> of \<open>get_logs_terminated\<close>.
\<close>

theorem get_logs_unterminated_last_line:
  "reverse_read_lines ''a\<newline>b'' 8192 = Inr [''b'', ''a\<newline>'']
   \<and> get_logs example_service 2 (logged ''a\<newline>b'') = Inr ''ba''
   \<and> get_logs example_service 2 (logged ''a\<newline>b\<newline>'') = Inr ''a\<newline>b''"
  by (simp add: get_logs_def get_logs_of_def reverse_read_lines_def reverse_read_lines_loop.simps
      splitlines_def line_boundary_def logged_def example_service_def)

section \<open>Running a script that is running\<close>

lemma release_port_nonempty: "ports p \<noteq> [] \<Longrightarrow> ports (release_port x p) \<noteq> []"
  by (cases "ports p") (auto simp: release_port_def)

lemma reaped_outcome:
  "\<exists>r' g'. reaped p c (r, g) = Return c (r', g')
     \<and> proc r' = Some (p\<lparr>returncode := Some c\<rparr>) \<and> runner_class r' = runner_class r
     \<and> launches g' = launches g \<and> fs g' = fs g \<and> tasks g' = tasks g \<and> checkouts g' = checkouts g
     \<and> (ports (port_service g) \<noteq> [] \<longrightarrow> ports (port_service g') \<noteq> [])"
  by (auto simp: reaped_def release_runner_port_def Let_def release_port_nonempty split: option.splits)

lemma stop_running:
  assumes "is_running r"
  shows "\<exists>c r' g'. except (Runner_terminate ev (Some 10) (r, g)) TimeoutError (Runner_kill ev None) = Return c (r', g')
     \<and> \<not> is_running r' \<and> runner_class r' = runner_class r
     \<and> launches g' = launches g \<and> fs g' = fs g \<and> tasks g' = tasks g \<and> checkouts g' = checkouts g
     \<and> (ports (port_service g) \<noteq> [] \<longrightarrow> ports (port_service g') \<noteq> [])"
proof -
  from assms obtain p where p: "proc r = Some p" "returncode p = None"
    by (auto simp: is_running_def split: option.splits)
  let ?p1 = "p\<lparr>sigterm_sent := True\<rparr>"
  let ?r1 = "r\<lparr>proc := Some ?p1\<rparr>"
  have t: "Runner_terminate ev (Some 10) (r, g) = Runner_wait_for ev 10 (?r1, g)"
    using p by (simp add: Runner_terminate_def truthy_def terminate_impl_def signal_impl_def)
  show ?thesis
  proof (cases "exit_within (behaviour_of ev (pid ?p1)) ?p1 10")
    case (Some c)
    then have "Runner_wait_for ev 10 (?r1, g) = reaped ?p1 c (?r1, g)"
      by (simp add: Runner_wait_for_def)
    moreover obtain r' g' where "reaped ?p1 c (?r1, g) = Return c (r', g')"
       "proc r' = Some (?p1\<lparr>returncode := Some c\<rparr>)" "runner_class r' = runner_class ?r1"
       "launches g' = launches g" "fs g' = fs g" "tasks g' = tasks g" "checkouts g' = checkouts g"
       "ports (port_service g) \<noteq> [] \<longrightarrow> ports (port_service g') \<noteq> []"
      using reaped_outcome [of ?p1 c ?r1 g] by blast
    ultimately show ?thesis
      using t by (auto simp: is_running_def)
  next
    case None
    let ?p2 = "?p1\<lparr>sigkill_sent := True\<rparr>"
    let ?r2 = "?r1\<lparr>proc := Some ?p2\<rparr>"
    let ?c = "snd (on_kill (behaviour_of ev (pid p)))"
    have "Runner_wait_for ev 10 (?r1, g) = Raise TimeoutError (?r1, g)"
      using None by (simp add: Runner_wait_for_def)
    moreover have "Runner_kill ev None (?r1, g) = reaped ?p2 ?c (?r2, g)"
      using p by (simp add: Runner_kill_def truthy_def kill_impl_def signal_impl_def Runner_wait_def exit_status_def)
    moreover obtain r' g' where "reaped ?p2 ?c (?r2, g) = Return ?c (r', g')"
       "proc r' = Some (?p2\<lparr>returncode := Some ?c\<rparr>)" "runner_class r' = runner_class ?r2"
       "launches g' = launches g" "fs g' = fs g" "tasks g' = tasks g" "checkouts g' = checkouts g"
       "ports (port_service g) \<noteq> [] \<longrightarrow> ports (port_service g') \<noteq> []"
      using reaped_outcome [of ?p2 ?c ?r2 g] by blast
    ultimately show ?thesis
      using t by (auto simp: is_running_def)
  qed
qed

lemma run_impl_launches:
  assumes "runner_class r = StreamlitVenvRunner \<longrightarrow> ports (port_service g) \<noteq> []"
  shows "\<exists>r' g' p' cmd. run_impl ev e v c (r, g) = Return (returncode p' = None) (r', g')
     \<and> proc r' = Some p' \<and> pid p' = length (launches g)
     \<and> launches g' = launches g @ [cmd] \<and> fs g' = fs g \<and> tasks g' = tasks g \<and> checkouts g' = checkouts g
     \<and> runner_class r' = runner_class r"
proof (cases "runner_class r")
  case PythonShellRunner
  then show ?thesis
    by (simp add: run_impl_def create_subprocess_def)
next
  case PythonVEnvRunner
  then show ?thesis
    by (simp add: run_impl_def create_subprocess_def)
next
  case StreamlitVenvRunner
  with assms obtain x xs where "ports (port_service g) = x # xs"
    by (cases "ports (port_service g)") auto
  then show ?thesis
    using StreamlitVenvRunner
    by (simp add: run_impl_def create_subprocess_def acquire_port_def Let_def)
qed

lemma SubProcessRunner_run_on_running:
  assumes "is_running r"
      and "runner_class r = StreamlitVenvRunner \<longrightarrow> ports (port_service g) \<noteq> []"
  shows "\<exists>r' g' p' cmd. SubProcessRunner_run ev e v c (r, g) = Return (returncode p' = None) (r', g')
     \<and> proc r' = Some p' \<and> pid p' = length (launches g)
     \<and> launches g' = launches g @ [cmd] \<and> fs g' = fs g \<and> tasks g' = tasks g \<and> checkouts g' = checkouts g
     \<and> runner_class r' = runner_class r"
proof -
  obtain c0 r1 g1 where stop:
      "except (Runner_terminate ev (Some 10) (r, g)) TimeoutError (Runner_kill ev None) = Return c0 (r1, g1)"
      "runner_class r1 = runner_class r" "launches g1 = launches g" "fs g1 = fs g" "tasks g1 = tasks g"
      "checkouts g1 = checkouts g" "ports (port_service g) \<noteq> [] \<longrightarrow> ports (port_service g1) \<noteq> []"
    using stop_running [OF assms(1), of ev g] by blast
  have "runner_class r1 = StreamlitVenvRunner \<longrightarrow> ports (port_service g1) \<noteq> []"
    using assms(2) stop by simp
  then obtain r' g' p' cmd where launch:
      "run_impl ev e v c (r1, g1) = Return (returncode p' = None) (r', g')"
      "proc r' = Some p'" "pid p' = length (launches g1)" "launches g' = launches g1 @ [cmd]"
      "fs g' = fs g1" "tasks g' = tasks g1" "checkouts g' = checkouts g1" "runner_class r' = runner_class r1"
    using run_impl_launches [of r1 g1 ev e v c] by blast
  have "SubProcessRunner_run ev e v c (r, g)
      = Return (returncode p' = None) (if returncode p' = None then r'\<lparr>run_start_event := True\<rparr> else r', g')"
    using assms(1) stop(1) launch(1) by (simp add: SubProcessRunner_run_def)
  then show ?thesis
    using stop launch by (intro exI [of _ "if returncode p' = None then r'\<lparr>run_start_event := True\<rparr> else r'"] exI [of _ g'] exI [of _ p'] exI [of _ cmd]) simp
qed

text \<open>
  Claim C4, as the code has it. The rejection of a second run is a guard of the run
  endpoint: for a script whose process is running, \<open>run_script\<close> answers with the HTTP
  error 400 and leaves everything as it is. \<open>Script.run\<close> itself has no such guard: the
  runner first stops the running process (\<open>terminate\<close> with a timeout of 10, \<open>kill\<close>
  when that times out), which always succeeds, and then launches one new process; the
  call returns with the script active or inactive and its exit watcher scheduled. (For a
  streamlit runner the launch needs a port in the pool.)
\<close>

theorem run_while_running:
  assumes "is_running r"
      and "loaded_on_disk (release s) g"
      and "runner_class r = StreamlitVenvRunner \<longrightarrow> ports (port_service g) \<noteq> []"
  shows "run_script ev self overrides (s, r, g) = Raise (HTTPException 400 ''Script is already running'') (s, r, g)
       \<and> (\<exists>c0 r1 g1. except (Runner_terminate ev (Some 10) (r, g)) TimeoutError (Runner_kill ev None)
                          = Return c0 (r1, g1)
                      \<and> \<not> is_running r1 \<and> launches g1 = launches g)
       \<and> (\<exists>s' r' g' p' cmd. Script_run ev self e v c (s, r, g) = Return () (s', r', g')
                      \<and> proc r' = Some p' \<and> pid p' = length (launches g)
                      \<and> launches g' = launches g @ [cmd]
                      \<and> state s' = (if returncode p' = None then ACTIVE else INACTIVE)
                      \<and> tasks g' = tasks g @ [Wait_script self])"
proof (intro conjI)
  show "run_script ev self overrides (s, r, g) = Raise (HTTPException 400 ''Script is already running'') (s, r, g)"
    using assms(1) by (simp add: run_script_def)
next
  show "\<exists>c0 r1 g1. except (Runner_terminate ev (Some 10) (r, g)) TimeoutError (Runner_kill ev None)
                          = Return c0 (r1, g1)
                      \<and> \<not> is_running r1 \<and> launches g1 = launches g"
    using stop_running [OF assms(1), of ev g] by blast
next
  let ?e = "or_else e (entry_file (AppConfig.config (config s)))"
  let ?v = "release_mode (dict_merge (env (AppConfig.config (config s))) (or_else v []))"
  let ?c = "or_else c (cli_args (AppConfig.config (config s)))"
  obtain r' g' p' cmd where run:
      "SubProcessRunner_run ev ?e ?v ?c (r, g) = Return (returncode p' = None) (r', g')"
      "proc r' = Some p'" "pid p' = length (launches g)" "launches g' = launches g @ [cmd]"
      "tasks g' = tasks g"
    using SubProcessRunner_run_on_running [OF assms(1) assms(3), of ev ?e ?v ?c] by blast
  have "Script_run ev self e v c (s, r, g)
      = Return () (s\<lparr>state := (if returncode p' = None then ACTIVE else INACTIVE), port := Runner_port r'\<rparr>, r',
                   g'\<lparr>tasks := tasks g' @ [Wait_script self]\<rparr>)"
    using assms(2) run(1) by (simp add: Script_run_def ensure_loaded_def)
  then show "\<exists>s' r' g' p' cmd. Script_run ev self e v c (s, r, g) = Return () (s', r', g')
                      \<and> proc r' = Some p' \<and> pid p' = length (launches g)
                      \<and> launches g' = launches g @ [cmd]
                      \<and> state s' = (if returncode p' = None then ACTIVE else INACTIVE)
                      \<and> tasks g' = tasks g @ [Wait_script self]"
    using run by (intro exI [of _ "s\<lparr>state := (if returncode p' = None then ACTIVE else INACTIVE), port := Runner_port r'\<rparr>"]
        exI [of _ r'] exI [of _ "g'\<lparr>tasks := tasks g' @ [Wait_script self]\<rparr>"] exI [of _ p'] exI [of _ cmd]) simp
qed

text \<open>
  The claim as the specification states it fails for \<open>Script.run\<close>: called on a script
  whose process (pid 0) is running, it returns without an error and a second process
  (pid 1) has been launched.
\<close>

theorem run_on_running_script_starts_process:
  "is_running (running_runner PythonVEnvRunner)
   \<and> Script_run (example_environment (\<lambda>n. obedient)) 1 None None None
        (example_script, running_runner PythonVEnvRunner, running_globals)
     = Return ()
        (example_script\<lparr>state := ACTIVE\<rparr>,
         (running_runner PythonVEnvRunner)
            \<lparr>proc := Some \<lparr>pid = 1, returncode = None, sigterm_sent = False, sigkill_sent = False\<rparr>\<rparr>,
         running_globals
            \<lparr>launches := launches running_globals
                 @ [''. /venv/bin/activate; cd /tmp/10/myapp/v1; exec env RELEASE_MODE=True  python -u main.py  ''],
             tasks := [Wait_script 1]\<rparr>)"
  by (simp add: Script_run_def ensure_loaded_def loaded_on_disk_def os_path_exists_def SubProcessRunner_run_def
      Runner_terminate_def truthy_def terminate_impl_def signal_impl_def Runner_wait_for_def exit_within_def
      reaped_def run_impl_def create_subprocess_def is_running_def Runner_port_def
      example_environment_def obedient_def example_script_def example_release_def example_config_def
      running_runner_def idle_runner_def SubProcessRunner_init_def running_globals_def example_globals_def
      empty_globals_def release_mode_def dict_merge_def or_else_def render_env_def Let_def)

theorem run_while_running_witness:
  "run_script (example_environment (\<lambda>n. obedient)) 1 None
        (example_script, running_runner PythonVEnvRunner, running_globals)
     = Raise (HTTPException 400 ''Script is already running'')
        (example_script, running_runner PythonVEnvRunner, running_globals)
   \<and> (\<exists>s' r' g' p' cmd. Script_run (example_environment (\<lambda>n. obedient)) 1 None None None
        (example_script, running_runner PythonVEnvRunner, running_globals) = Return () (s', r', g')
        \<and> proc r' = Some p' \<and> pid p' = 1 \<and> launches g' = launches running_globals @ [cmd])"
proof -
  have a: "is_running (running_runner PythonVEnvRunner)"
    by (simp add: is_running_def running_runner_def)
  have b: "loaded_on_disk (release example_script) running_globals"
    by (simp add: loaded_on_disk_def os_path_exists_def example_script_def example_release_def
        running_globals_def example_globals_def)
  have c: "runner_class (running_runner PythonVEnvRunner) = StreamlitVenvRunner
      \<longrightarrow> ports (port_service running_globals) \<noteq> []"
    by (simp add: running_runner_def idle_runner_def SubProcessRunner_init_def)
  have l: "length (launches running_globals) = 1"
    by (simp add: running_globals_def)
  show ?thesis
    using run_while_running [OF a b c, of "example_environment (\<lambda>n. obedient)" 1 None None None None] l
    by auto
qed

section \<open>Properties of services\<close>

lemma run_impl_idle:
  assumes "runner_class r = StreamlitVenvRunner \<longrightarrow> ports (port_service g) \<noteq> []"
  shows "\<exists>r' g' p'. run_impl ev e v c (r, g) = Return (ready_child ev (runner_class r) (length (launches g))) (r', g')
     \<and> proc r' = Some p' \<and> pid p' = length (launches g)
     \<and> returncode p' = (if runner_class r = StreamlitVenvRunner then early_exit (behaviour_of ev (length (launches g))) else None)
     \<and> length (launches g') = Suc (length (launches g)) \<and> fs g' = fs g \<and> tasks g' = tasks g
     \<and> checkouts g' = checkouts g \<and> runner_class r' = runner_class r
     \<and> length (ports (port_service g)) \<le> Suc (length (ports (port_service g')))"
proof (cases "runner_class r")
  case PythonShellRunner
  then show ?thesis
    by (simp add: run_impl_def create_subprocess_def ready_child_def)
next
  case PythonVEnvRunner
  then show ?thesis
    by (simp add: run_impl_def create_subprocess_def ready_child_def)
next
  case StreamlitVenvRunner
  with assms obtain x xs where "ports (port_service g) = x # xs"
    by (cases "ports (port_service g)") auto
  then show ?thesis
    using StreamlitVenvRunner
    by (simp add: run_impl_def create_subprocess_def acquire_port_def Let_def ready_child_def)
qed

lemma SubProcessRunner_run_idle:
  assumes "\<not> is_running r"
      and "runner_class r = StreamlitVenvRunner \<longrightarrow> ports (port_service g) \<noteq> []"
  shows "\<exists>r' g' p'. SubProcessRunner_run ev e v c (r, g)
         = Return (ready_child ev (runner_class r) (length (launches g))) (r', g')
     \<and> proc r' = Some p' \<and> pid p' = length (launches g)
     \<and> returncode p' = (if runner_class r = StreamlitVenvRunner then early_exit (behaviour_of ev (length (launches g))) else None)
     \<and> length (launches g') = Suc (length (launches g)) \<and> fs g' = fs g \<and> tasks g' = tasks g
     \<and> checkouts g' = checkouts g \<and> runner_class r' = runner_class r
     \<and> length (ports (port_service g)) \<le> Suc (length (ports (port_service g')))"
proof -
  obtain r' g' p' where launch:
      "run_impl ev e v c (r, g) = Return (ready_child ev (runner_class r) (length (launches g))) (r', g')"
      "proc r' = Some p'" "pid p' = length (launches g)"
      "returncode p' = (if runner_class r = StreamlitVenvRunner then early_exit (behaviour_of ev (length (launches g))) else None)"
      "length (launches g') = Suc (length (launches g))" "fs g' = fs g" "tasks g' = tasks g"
      "checkouts g' = checkouts g" "runner_class r' = runner_class r"
      "length (ports (port_service g)) \<le> Suc (length (ports (port_service g')))"
    using run_impl_idle [OF assms(2), of ev e v c] by blast
  let ?r = "if ready_child ev (runner_class r) (length (launches g)) then r'\<lparr>run_start_event := True\<rparr> else r'"
  have "SubProcessRunner_run ev e v c (r, g)
      = Return (ready_child ev (runner_class r) (length (launches g))) (?r, g')"
    using assms(1) launch(1) by (simp add: SubProcessRunner_run_def)
  then show ?thesis
    using launch by (intro exI [of _ ?r] exI [of _ g'] exI [of _ p']) simp
qed

lemma not_ready_not_running:
  assumes "\<not> ready_child ev (runner_class r) n" and "proc r' = Some p'"
      and "returncode p' = (if runner_class r = StreamlitVenvRunner then early_exit (behaviour_of ev n) else None)"
  shows "\<not> is_running r'"
  using assms by (auto simp: ready_child_def is_running_def)

text \<open>The loop when no remaining attempt reports readiness, and when the \<open>i\<close>-th one does.\<close>

lemma startup_loop_fails:
  assumes "\<not> is_running r" and "tries + m = startup_tries"
      and "\<forall>j<m. \<not> ready_child ev (runner_class r) (length (launches g) + j)"
      and "runner_class r = StreamlitVenvRunner \<longrightarrow> m \<le> length (ports (port_service g))"
      and "0 < m"
  shows "\<exists>r' g' p'. startup_loop ev False tries (s, r, g) = Return False (s, r', g')
     \<and> proc r' = Some p' \<and> pid p' = length (launches g) + m - 1
     \<and> returncode p' = early_exit (behaviour_of ev (length (launches g) + m - 1))
     \<and> runner_class r' = runner_class r \<and> runner_class r = StreamlitVenvRunner
     \<and> length (launches g') = length (launches g) + m \<and> fs g' = fs g \<and> tasks g' = tasks g
     \<and> checkouts g' = checkouts g"
  using assms
proof (induction m arbitrary: tries r g)
  case 0
  then show ?case by simp
next
  case (Suc m)
  let ?e = "entry_file (AppConfig.config (config s))"
  let ?v = "release_mode (env (AppConfig.config (config s)))"
  let ?c = "cli_args (AppConfig.config (config s))"
  have nr: "\<not> ready_child ev (runner_class r) (length (launches g))"
    using Suc.prems(3) by (metis add.right_neutral zero_less_Suc)
  then have st: "runner_class r = StreamlitVenvRunner"
    by (auto simp: ready_child_def)
  have pool: "ports (port_service g) \<noteq> []"
    using Suc.prems(4) st by auto
  obtain r1 g1 p1 where first:
      "SubProcessRunner_run ev ?e ?v ?c (r, g) = Return False (r1, g1)"
      "proc r1 = Some p1" "pid p1 = length (launches g)"
      "returncode p1 = (if runner_class r = StreamlitVenvRunner then early_exit (behaviour_of ev (length (launches g))) else None)"
      "length (launches g1) = Suc (length (launches g))" "fs g1 = fs g" "tasks g1 = tasks g"
      "checkouts g1 = checkouts g" "runner_class r1 = runner_class r"
      "length (ports (port_service g)) \<le> Suc (length (ports (port_service g1)))"
    using SubProcessRunner_run_idle [OF Suc.prems(1), of g ev ?e ?v ?c] pool nr by auto
  have idle1: "\<not> is_running r1"
    using not_ready_not_running [OF nr first(2) first(4)] .
  have t: "tries < startup_tries"
    using Suc.prems(2) by simp
  have unfold: "startup_loop ev False tries (s, r, g) = startup_loop ev False (Suc tries) (s, r1, g1)"
    using t first(1) by (subst startup_loop.simps) simp
  show ?case
  proof (cases m)
    case 0
    then have "Suc tries = startup_tries"
      using Suc.prems(2) by simp
    then have "startup_loop ev False (Suc tries) (s, r1, g1) = Return False (s, r1, g1)"
      by (subst startup_loop.simps) simp
    then show ?thesis
      using unfold first 0 st by simp
  next
    case (Suc m')
    have "\<exists>r' g' p'. startup_loop ev False (Suc tries) (s, r1, g1) = Return False (s, r', g')
       \<and> proc r' = Some p' \<and> pid p' = length (launches g1) + m - 1
       \<and> returncode p' = early_exit (behaviour_of ev (length (launches g1) + m - 1))
       \<and> runner_class r' = runner_class r1 \<and> runner_class r1 = StreamlitVenvRunner
       \<and> length (launches g') = length (launches g1) + m \<and> fs g' = fs g1 \<and> tasks g' = tasks g1
       \<and> checkouts g' = checkouts g1"
    proof (rule Suc.IH [OF idle1])
      show "Suc tries + m = startup_tries"
        using \<open>tries + Suc m = startup_tries\<close> by simp
      show "\<forall>j<m. \<not> ready_child ev (runner_class r1) (length (launches g1) + j)"
        using Suc.prems(3) first(5) first(9) by auto
      show "runner_class r1 = StreamlitVenvRunner \<longrightarrow> m \<le> length (ports (port_service g1))"
        using Suc.prems(4) first(10) st by auto
      show "0 < m"
        using Suc by simp
    qed
    then show ?thesis
      using unfold first Suc by auto
  qed
qed

lemma startup_loop_succeeds:
  assumes "\<not> is_running r" and "tries + i < startup_tries"
      and "\<forall>j<i. \<not> ready_child ev (runner_class r) (length (launches g) + j)"
      and "ready_child ev (runner_class r) (length (launches g) + i)"
      and "runner_class r = StreamlitVenvRunner \<longrightarrow> Suc i \<le> length (ports (port_service g))"
  shows "\<exists>r' g' p'. startup_loop ev False tries (s, r, g) = Return True (s, r', g')
     \<and> proc r' = Some p' \<and> pid p' = length (launches g) + i \<and> returncode p' = None
     \<and> runner_class r' = runner_class r
     \<and> length (launches g') = length (launches g) + Suc i \<and> fs g' = fs g \<and> tasks g' = tasks g
     \<and> checkouts g' = checkouts g"
  using assms
proof (induction i arbitrary: tries r g)
  case 0
  let ?e = "entry_file (AppConfig.config (config s))"
  let ?v = "release_mode (env (AppConfig.config (config s)))"
  let ?c = "cli_args (AppConfig.config (config s))"
  have rd: "ready_child ev (runner_class r) (length (launches g))"
    using "0.prems"(4) by simp
  have pool: "runner_class r = StreamlitVenvRunner \<longrightarrow> ports (port_service g) \<noteq> []"
    using "0.prems"(5) by auto
  obtain r1 g1 p1 where first:
      "SubProcessRunner_run ev ?e ?v ?c (r, g) = Return True (r1, g1)"
      "proc r1 = Some p1" "pid p1 = length (launches g)"
      "returncode p1 = (if runner_class r = StreamlitVenvRunner then early_exit (behaviour_of ev (length (launches g))) else None)"
      "length (launches g1) = Suc (length (launches g))" "fs g1 = fs g" "tasks g1 = tasks g"
      "checkouts g1 = checkouts g" "runner_class r1 = runner_class r"
    using SubProcessRunner_run_idle [OF "0.prems"(1) pool, of ev ?e ?v ?c] rd by auto
  have "startup_loop ev False tries (s, r, g) = startup_loop ev True (Suc tries) (s, r1, g1)"
    using "0.prems"(2) first(1) by (subst startup_loop.simps) simp
  also have "\<dots> = Return True (s, r1, g1)"
    by (subst startup_loop.simps) simp
  finally show ?case
    using first rd by (auto simp: ready_child_def)
next
  case (Suc i)
  let ?e = "entry_file (AppConfig.config (config s))"
  let ?v = "release_mode (env (AppConfig.config (config s)))"
  let ?c = "cli_args (AppConfig.config (config s))"
  have nr: "\<not> ready_child ev (runner_class r) (length (launches g))"
    using Suc.prems(3) by (metis add.right_neutral zero_less_Suc)
  then have st: "runner_class r = StreamlitVenvRunner"
    by (auto simp: ready_child_def)
  have pool: "ports (port_service g) \<noteq> []"
    using Suc.prems(5) st by auto
  obtain r1 g1 p1 where first:
      "SubProcessRunner_run ev ?e ?v ?c (r, g) = Return False (r1, g1)"
      "proc r1 = Some p1" "pid p1 = length (launches g)"
      "returncode p1 = (if runner_class r = StreamlitVenvRunner then early_exit (behaviour_of ev (length (launches g))) else None)"
      "length (launches g1) = Suc (length (launches g))" "fs g1 = fs g" "tasks g1 = tasks g"
      "checkouts g1 = checkouts g" "runner_class r1 = runner_class r"
      "length (ports (port_service g)) \<le> Suc (length (ports (port_service g1)))"
    using SubProcessRunner_run_idle [OF Suc.prems(1), of g ev ?e ?v ?c] pool nr by auto
  have idle1: "\<not> is_running r1"
    using not_ready_not_running [OF nr first(2) first(4)] .
  have unfold: "startup_loop ev False tries (s, r, g) = startup_loop ev False (Suc tries) (s, r1, g1)"
    using Suc.prems(2) first(1) by (subst startup_loop.simps) simp
  have "\<exists>r' g' p'. startup_loop ev False (Suc tries) (s, r1, g1) = Return True (s, r', g')
     \<and> proc r' = Some p' \<and> pid p' = length (launches g1) + i \<and> returncode p' = None
     \<and> runner_class r' = runner_class r1
     \<and> length (launches g') = length (launches g1) + Suc i \<and> fs g' = fs g1 \<and> tasks g' = tasks g1
     \<and> checkouts g' = checkouts g1"
  proof (rule Suc.IH [OF idle1])
    show "Suc tries + i < startup_tries"
      using Suc.prems(2) by simp
    show "\<forall>j<i. \<not> ready_child ev (runner_class r1) (length (launches g1) + j)"
      using Suc.prems(3) first(5) first(9) by auto
    show "ready_child ev (runner_class r1) (length (launches g1) + i)"
      using Suc.prems(4) first(5) first(9) by simp
    show "runner_class r1 = StreamlitVenvRunner \<longrightarrow> Suc i \<le> length (ports (port_service g1))"
      using Suc.prems(5) first(10) st by auto
  qed
  then show ?case
    using unfold first by auto
qed

lemma ensure_log_file:
  assumes "\<forall>t. fs g (log_file s) \<noteq> Some (Dir t)"
  shows "fs (ensure_log_file_exists (log_file s) g) (log_file s) = Some (File (log_text s g))
     \<and> launches (ensure_log_file_exists (log_file s) g) = launches g
     \<and> tasks (ensure_log_file_exists (log_file s) g) = tasks g
     \<and> port_service (ensure_log_file_exists (log_file s) g) = port_service g
     \<and> checkouts (ensure_log_file_exists (log_file s) g) = checkouts g"
proof (cases "fs g (log_file s)")
  case None
  then show ?thesis
    by (simp add: ensure_log_file_exists_def os_path_exists_def log_text_def)
next
  case (Some n)
  then obtain t where "n = File t"
    using assms by (cases n) auto
  then show ?thesis
    using Some by (simp add: ensure_log_file_exists_def os_path_exists_def log_text_def)
qed

lemma write_to_log_file:
  assumes "fs g file = Some (File t)"
  shows "write_to_log ev file data g = Return () (g\<lparr>fs := (fs g)(file \<mapsto> File (t @ log_line ev data))\<rparr>)"
  using assms by (simp add: write_to_log_def)

lemma least_ready:
  assumes "ready_child ev c (n + i)"
  shows "\<exists>i'\<le>i. ready_child ev c (n + i') \<and> (\<forall>j<i'. \<not> ready_child ev c (n + j))"
proof -
  let ?P = "\<lambda>i. ready_child ev c (n + i)"
  have "?P (LEAST i. ?P i)"
    using assms by (rule LeastI)
  moreover have "(LEAST i. ?P i) \<le> i"
    using assms by (rule Least_le)
  moreover have "\<forall>j<(LEAST i. ?P i). \<not> ?P j"
    using not_less_Least by blast
  ultimately show ?thesis
    by blast
qed







lemma Service_run_idle_from:
  assumes a1: "\<not> is_running r"
      and a2: "ensure_loaded ev (release s) g0 = Return () g"
      and a3: "runner_class r = StreamlitVenvRunner \<longrightarrow> startup_tries \<le> length (ports (port_service g))"
      and a4: "\<forall>t. fs g (log_file s) \<noteq> Some (Dir t)"
  shows "\<exists>k s' r' g' p'. Service_run ev self (s, r, g0) = Return () (s', r', g')
     \<and> 1 \<le> k \<and> k \<le> startup_tries \<and> length (launches g') = length (launches g) + k
     \<and> (\<forall>j<k - 1. \<not> ready_child ev (runner_class r) (length (launches g) + j))
     \<and> proc r' = Some p' \<and> pid p' = length (launches g) + k - 1
     \<and> (ready_child ev (runner_class r) (length (launches g) + k - 1) \<longrightarrow>
           s' = (set_state ACTIVE (set_state STARTING s))\<lparr>started_at := Some (time_time ev)\<rparr>
           \<and> returncode p' = None
           \<and> tasks g' = tasks g @ [Wait_service self, Log_service self]
           \<and> log_text s g' = log_text s g @ log_line ev ''Starting service...'')
     \<and> (\<not> ready_child ev (runner_class r) (length (launches g) + k - 1) \<longrightarrow>
           k = startup_tries
           \<and> (\<exists>c. returncode p' = Some c
                 \<and> early_exit (behaviour_of ev (length (launches g) + k - 1)) = Some c
                 \<and> s' = (set_state FAILED_TO_START (set_state STARTING s))\<lparr>exit_code := Some c\<rparr>
                 \<and> log_text s g' = log_text s g @ log_line ev ''Starting service...''
                      @ log_line ev (''Failed to start process. exit-code: '' @ str_int c))
           \<and> tasks g' = tasks g)"
proof -
  let ?n = "length (launches g)"
  let ?cl = "runner_class r"
  let ?g0 = "ensure_log_file_exists (log_file s) g"
  let ?t1 = "log_text s g @ log_line ev ''Starting service...''"
  let ?g1 = "?g0\<lparr>fs := (fs ?g0)(log_file s \<mapsto> File ?t1)\<rparr>"
  let ?s1 = "set_state STARTING s"
  have g0: "fs ?g0 (log_file s) = Some (File (log_text s g))" "launches ?g0 = launches g"
      "tasks ?g0 = tasks g" "port_service ?g0 = port_service g"
    using ensure_log_file [OF a4] by simp_all
  have w1: "write_to_log ev (log_file s) ''Starting service...'' ?g0 = Return () ?g1"
    using write_to_log_file [OF g0(1)] by simp
  have cfg: "config ?s1 = config s" "log_file ?s1 = log_file s"
    by (simp_all add: set_state_def)
  have start: "Service_run ev self (s, r, g0) =
      and_then (startup_loop ev False 0 (?s1, r, ?g1))
        (\<lambda>ready (s, r, g).
           if \<not> ready then
             and_then
               (embed (\<lambda>(r', g'). (set_state FAILED_TO_START s, r', g')) (Runner_wait ev (r, g)))
               (\<lambda>c (s, r, g).
                  embed (\<lambda>g'. (s\<lparr>exit_code := Some c\<rparr>, r, g'))
                    (write_to_log ev (log_file s)
                       (''Failed to start process. exit-code: '' @ str_int c) g))
           else
             Return () ((set_state ACTIVE s)\<lparr>started_at := Some (time_time ev)\<rparr>, r,
                        g\<lparr>tasks := tasks g @ [Wait_service self, Log_service self]\<rparr>))"
    using a1 a2 w1 by (simp add: Service_run_def Let_def)
  have pool1: "port_service ?g1 = port_service g" and l1: "launches ?g1 = launches g"
    and tk1: "tasks ?g1 = tasks g" and fs1: "fs ?g1 (log_file s) = Some (File ?t1)"
    using g0 by simp_all
  show ?thesis
  proof (cases "\<exists>i<startup_tries. ready_child ev ?cl (?n + i)")
    case True
    then obtain i0 where "i0 < startup_tries" "ready_child ev ?cl (?n + i0)"
      by blast
    then obtain i where i: "i < startup_tries" "ready_child ev ?cl (?n + i)"
        "\<forall>j<i. \<not> ready_child ev ?cl (?n + j)"
      using least_ready [of ev ?cl ?n i0] by (meson le_less_trans)
    have "\<exists>r' g' p'. startup_loop ev False 0 (?s1, r, ?g1) = Return True (?s1, r', g')
       \<and> proc r' = Some p' \<and> pid p' = length (launches ?g1) + i \<and> returncode p' = None
       \<and> runner_class r' = runner_class r
       \<and> length (launches g') = length (launches ?g1) + Suc i \<and> fs g' = fs ?g1 \<and> tasks g' = tasks ?g1
       \<and> checkouts g' = checkouts ?g1"
    proof (rule startup_loop_succeeds [OF a1])
      show "0 + i < startup_tries"
        using i(1) by simp
      show "\<forall>j<i. \<not> ready_child ev ?cl (length (launches ?g1) + j)"
        using i(3) l1 by simp
      show "ready_child ev ?cl (length (launches ?g1) + i)"
        using i(2) l1 by simp
      show "?cl = StreamlitVenvRunner \<longrightarrow> Suc i \<le> length (ports (port_service ?g1))"
        using a3 i(1) pool1 by auto
    qed
    then obtain r' g' p' where loop:
        "startup_loop ev False 0 (?s1, r, ?g1) = Return True (?s1, r', g')"
        "proc r' = Some p'" "pid p' = ?n + i" "returncode p' = None"
        "length (launches g') = ?n + Suc i" "fs g' = fs ?g1" "tasks g' = tasks g"
      using l1 tk1 by auto
    let ?s' = "(set_state ACTIVE ?s1)\<lparr>started_at := Some (time_time ev)\<rparr>"
    let ?g' = "g'\<lparr>tasks := tasks g' @ [Wait_service self, Log_service self]\<rparr>"
    have run: "Service_run ev self (s, r, g0) = Return () (?s', r', ?g')"
      using start loop(1) by simp
    have lt: "log_text s ?g' = ?t1"
      using loop(6) fs1 by (simp add: log_text_def)
    have c1: "1 \<le> Suc i" "Suc i \<le> startup_tries" "length (launches ?g') = ?n + Suc i"
      using i(1) loop(5) by simp_all
    have c2: "\<forall>j<Suc i - 1. \<not> ready_child ev ?cl (?n + j)"
      using i(3) by simp
    have c3: "pid p' = ?n + Suc i - 1" "ready_child ev ?cl (?n + Suc i - 1)"
      using loop(3) i(2) by simp_all
    have c4: "tasks ?g' = tasks g @ [Wait_service self, Log_service self]"
      using loop(7) by simp
    show ?thesis
      apply (rule exI [of _ "Suc i"])
      apply (rule exI [of _ ?s'])
      apply (rule exI [of _ r'])
      apply (rule exI [of _ ?g'])
      apply (rule exI [of _ p'])
      using run c1 c2 c3 c4 loop(2) loop(4) lt apply blast
      done
  next
    case False
    then have none: "\<forall>j<startup_tries. \<not> ready_child ev ?cl (?n + j)"
      by blast
    have "\<exists>r' g' p'. startup_loop ev False 0 (?s1, r, ?g1) = Return False (?s1, r', g')
       \<and> proc r' = Some p' \<and> pid p' = length (launches ?g1) + startup_tries - 1
       \<and> returncode p' = early_exit (behaviour_of ev (length (launches ?g1) + startup_tries - 1))
       \<and> runner_class r' = runner_class r \<and> runner_class r = StreamlitVenvRunner
       \<and> length (launches g') = length (launches ?g1) + startup_tries \<and> fs g' = fs ?g1 \<and> tasks g' = tasks ?g1
       \<and> checkouts g' = checkouts ?g1"
    proof (rule startup_loop_fails [OF a1])
      show "0 + startup_tries = startup_tries"
        by simp
      show "\<forall>j<startup_tries. \<not> ready_child ev ?cl (length (launches ?g1) + j)"
        using none l1 by simp
      show "?cl = StreamlitVenvRunner \<longrightarrow> startup_tries \<le> length (ports (port_service ?g1))"
        using a3 pool1 by simp
      show "0 < startup_tries"
        by (simp add: startup_tries_def)
    qed
    then obtain r' g' p' where loop:
        "startup_loop ev False 0 (?s1, r, ?g1) = Return False (?s1, r', g')"
        "proc r' = Some p'" "pid p' = ?n + startup_tries - 1"
        "returncode p' = early_exit (behaviour_of ev (?n + startup_tries - 1))"
        "runner_class r = StreamlitVenvRunner"
        "length (launches g') = ?n + startup_tries" "fs g' = fs ?g1" "tasks g' = tasks g"
      using l1 tk1 by auto
    have "?n + startup_tries - 1 = ?n + (startup_tries - 1)" "startup_tries - 1 < startup_tries"
      by (simp_all add: startup_tries_def)
    then have last_not_ready: "\<not> ready_child ev ?cl (?n + startup_tries - 1)"
      using none by metis
    then obtain c where c: "returncode p' = Some c"
      using loop(4) by (auto simp: ready_child_def)
    have wait: "Runner_wait ev (r', g') = reaped p' c (r', g')"
      using loop(2) c by (simp add: Runner_wait_def exit_status_def)
    obtain r'' g'' where reap: "reaped p' c (r', g') = Return c (r'', g'')"
        "proc r'' = Some (p'\<lparr>returncode := Some c\<rparr>)" "launches g'' = launches g'"
        "fs g'' = fs g'" "tasks g'' = tasks g'"
      using reaped_outcome [of p' c r' g'] by blast
    let ?t2 = "?t1 @ log_line ev (''Failed to start process. exit-code: '' @ str_int c)"
    let ?g3 = "g''\<lparr>fs := (fs g'')(log_file s \<mapsto> File ?t2)\<rparr>"
    let ?s' = "(set_state FAILED_TO_START ?s1)\<lparr>exit_code := Some c\<rparr>"
    have "fs g'' (log_file s) = Some (File ?t1)"
      using reap(4) loop(7) fs1 by simp
    then have w2: "write_to_log ev (log_file s) (''Failed to start process. exit-code: '' @ str_int c) g''
        = Return () ?g3"
      by (rule write_to_log_file)
    have run: "Service_run ev self (s, r, g0) = Return () (?s', r'', ?g3)"
      using start loop(1) wait reap(1) w2 by (simp add: set_state_def)
    have lt: "log_text s ?g3 = ?t2"
      by (simp add: log_text_def)
    have k: "1 \<le> startup_tries"
      by (simp add: startup_tries_def)
    let ?p = "p'\<lparr>returncode := Some c\<rparr>"
    have c1: "length (launches ?g3) = ?n + startup_tries"
      using loop(6) reap(3) by simp
    have c2: "\<forall>j<startup_tries - 1. \<not> ready_child ev ?cl (?n + j)"
      using none by simp
    have c3: "pid ?p = ?n + startup_tries - 1" "returncode ?p = Some c"
      using loop(3) by simp_all
    have c4: "tasks ?g3 = tasks g"
      using loop(8) reap(5) by simp
    have c5: "\<exists>c'. returncode ?p = Some c'
        \<and> early_exit (behaviour_of ev (?n + startup_tries - 1)) = Some c'
        \<and> ?s' = (set_state FAILED_TO_START ?s1)\<lparr>exit_code := Some c'\<rparr>
        \<and> log_text s ?g3 = log_text s g @ log_line ev ''Starting service...''
             @ log_line ev (''Failed to start process. exit-code: '' @ str_int c')"
      using lt loop(4) c by (intro exI [of _ c]) simp
    show ?thesis
      apply (rule exI [of _ startup_tries])
      apply (rule exI [of _ ?s'])
      apply (rule exI [of _ r''])
      apply (rule exI [of _ ?g3])
      apply (rule exI [of _ ?p])
      using run k c1 c2 reap(2) c3(1) last_not_ready c4 c5 apply blast
      done
  qed
qed

lemma Service_run_idle:
  assumes a1: "\<not> is_running r"
      and a2: "loaded_on_disk (release s) g"
      and a3: "runner_class r = StreamlitVenvRunner \<longrightarrow> startup_tries \<le> length (ports (port_service g))"
      and a4: "\<forall>t. fs g (log_file s) \<noteq> Some (Dir t)"
  shows "\<exists>k s' r' g' p'. Service_run ev self (s, r, g) = Return () (s', r', g')
     \<and> 1 \<le> k \<and> k \<le> startup_tries \<and> length (launches g') = length (launches g) + k
     \<and> (\<forall>j<k - 1. \<not> ready_child ev (runner_class r) (length (launches g) + j))
     \<and> proc r' = Some p' \<and> pid p' = length (launches g) + k - 1
     \<and> (ready_child ev (runner_class r) (length (launches g) + k - 1) \<longrightarrow>
           s' = (set_state ACTIVE (set_state STARTING s))\<lparr>started_at := Some (time_time ev)\<rparr>
           \<and> returncode p' = None
           \<and> tasks g' = tasks g @ [Wait_service self, Log_service self]
           \<and> log_text s g' = log_text s g @ log_line ev ''Starting service...'')
     \<and> (\<not> ready_child ev (runner_class r) (length (launches g) + k - 1) \<longrightarrow>
           k = startup_tries
           \<and> (\<exists>c. returncode p' = Some c
                 \<and> early_exit (behaviour_of ev (length (launches g) + k - 1)) = Some c
                 \<and> s' = (set_state FAILED_TO_START (set_state STARTING s))\<lparr>exit_code := Some c\<rparr>
                 \<and> log_text s g' = log_text s g @ log_line ev ''Starting service...''
                      @ log_line ev (''Failed to start process. exit-code: '' @ str_int c))
           \<and> tasks g' = tasks g)"
proof -
  have "ensure_loaded ev (release s) g = Return () g"
    using a2 by (simp add: ensure_loaded_def)
  from Service_run_idle_from [OF a1 this a3 a4] show ?thesis .
qed

lemma history_started:
  "history ((set_state ACTIVE (set_state STARTING s))\<lparr>started_at := x\<rparr>) = history s @ [STARTING, ACTIVE]"
  "state ((set_state ACTIVE (set_state STARTING s))\<lparr>started_at := x\<rparr>) = ACTIVE"
  "started_at ((set_state ACTIVE (set_state STARTING s))\<lparr>started_at := x\<rparr>) = x"
  "exit_code ((set_state ACTIVE (set_state STARTING s))\<lparr>started_at := x\<rparr>) = exit_code s"
  by (simp_all add: set_state_def)

lemma history_failed:
  "history ((set_state FAILED_TO_START (set_state STARTING s))\<lparr>exit_code := x\<rparr>) = history s @ [STARTING, FAILED_TO_START]"
  "state ((set_state FAILED_TO_START (set_state STARTING s))\<lparr>exit_code := x\<rparr>) = FAILED_TO_START"
  "exit_code ((set_state FAILED_TO_START (set_state STARTING s))\<lparr>exit_code := x\<rparr>) = x"
  by (simp_all add: set_state_def)




lemma release_port_length: "length (ports p) \<le> length (ports (release_port x p))"
  by (simp add: release_port_def)

lemma reaped_pool:
  "length (ports (port_service g)) \<le> length (ports (port_service (snd (final_state (reaped p c (r, g))))))"
  by (auto simp: reaped_def release_runner_port_def Let_def release_port_length split: option.splits)

lemma write_to_log_ok:
  assumes "\<forall>t. fs g file \<noteq> Some (Dir t)"
  shows "\<exists>g'. write_to_log ev file data g = Return () g'
     \<and> launches g' = launches g \<and> tasks g' = tasks g \<and> port_service g' = port_service g
     \<and> checkouts g' = checkouts g
     \<and> (\<forall>q. os_path_exists (fs g) q \<longrightarrow> os_path_exists (fs g') q)
     \<and> (\<forall>t. fs g' file \<noteq> Some (Dir t))"
proof (cases "fs g file")
  case None
  then show ?thesis
    by (simp add: write_to_log_def)
next
  case (Some n)
  then obtain t where "n = File t"
    using assms by (cases n) auto
  then show ?thesis
    using Some by (simp add: write_to_log_def os_path_exists_def)
qed

lemma Service_wait_task_exit:
  assumes p: "proc r = Some p" and c: "exit_status (behaviour_of ev (pid p)) p = Some c"
      and disk: "loaded_on_disk (release s) g"
      and pool: "runner_class r = StreamlitVenvRunner \<longrightarrow> startup_tries \<le> length (ports (port_service g))"
      and logs: "\<forall>t. fs g (log_file s) \<noteq> Some (Dir t)"
  shows "\<exists>r1 g1. Service_wait_task ev self (s, r, g)
          = (if enabled s
             then Service_run ev self ((set_state INACTIVE (s\<lparr>exit_code := Some c\<rparr>))\<lparr>started_at := None\<rparr>, r1, g1)
             else Return () ((set_state INACTIVE (s\<lparr>exit_code := Some c\<rparr>))\<lparr>started_at := None\<rparr>, r1, g1))
     \<and> \<not> is_running r1 \<and> runner_class r1 = runner_class r
     \<and> launches g1 = launches g \<and> tasks g1 = tasks g
     \<and> loaded_on_disk (release s) g1
     \<and> (runner_class r1 = StreamlitVenvRunner \<longrightarrow> startup_tries \<le> length (ports (port_service g1)))
     \<and> (\<forall>t. fs g1 (log_file s) \<noteq> Some (Dir t))"
proof -
  let ?s1 = "(set_state INACTIVE (s\<lparr>exit_code := Some c\<rparr>))\<lparr>started_at := None\<rparr>"
  have wait: "Runner_wait ev (r, g) = reaped p c (r, g)"
    using p c by (simp add: Runner_wait_def)
  obtain r1 g0 where reap: "reaped p c (r, g) = Return c (r1, g0)"
      "proc r1 = Some (p\<lparr>returncode := Some c\<rparr>)" "runner_class r1 = runner_class r"
      "launches g0 = launches g" "fs g0 = fs g" "tasks g0 = tasks g"
    using reaped_outcome [of p c r g] by blast
  have pool0: "length (ports (port_service g)) \<le> length (ports (port_service g0))"
    using reaped_pool [of g p c r] reap(1) by simp
  have "\<forall>t. fs g0 (log_file s) \<noteq> Some (Dir t)"
    using logs reap(5) by simp
  then obtain g1 where log: "write_to_log ev (log_file s) (''Process exited with code: '' @ str_int c) g0 = Return () g1"
      "launches g1 = launches g0" "tasks g1 = tasks g0" "port_service g1 = port_service g0"
      "\<forall>q. os_path_exists (fs g0) q \<longrightarrow> os_path_exists (fs g1) q"
      "\<forall>t. fs g1 (log_file s) \<noteq> Some (Dir t)"
    using write_to_log_ok [of g0 "log_file s" ev] by blast
  have en: "enabled ?s1 = enabled s"
    by (simp add: set_state_def)
  have task: "Service_wait_task ev self (s, r, g)
      = (if enabled s then Service_run ev self (?s1, r1, g1) else Return () (?s1, r1, g1))"
    using wait reap(1) log(1) en by (simp add: Service_wait_task_def)
  have "loaded_on_disk (release s) g1"
    using disk reap(5) log(5) by (simp add: loaded_on_disk_def)
  moreover have "\<not> is_running r1"
    using reap(2) by (simp add: is_running_def)
  moreover have "runner_class r1 = StreamlitVenvRunner \<longrightarrow> startup_tries \<le> length (ports (port_service g1))"
    using pool pool0 reap(3) log(4) by auto
  ultimately show ?thesis
    using task reap(3) reap(4) reap(6) log(2) log(3) log(6) by (intro exI [of _ r1] exI [of _ g1]) simp
qed


lemma history_restarted:
  "history ((set_state INACTIVE (s\<lparr>exit_code := x\<rparr>))\<lparr>started_at := y\<rparr>) = history s @ [INACTIVE]"
  "state ((set_state INACTIVE (s\<lparr>exit_code := x\<rparr>))\<lparr>started_at := y\<rparr>) = INACTIVE"
  "exit_code ((set_state INACTIVE (s\<lparr>exit_code := x\<rparr>))\<lparr>started_at := y\<rparr>) = x"
  "started_at ((set_state INACTIVE (s\<lparr>exit_code := x\<rparr>))\<lparr>started_at := y\<rparr>) = y"
  "release ((set_state INACTIVE (s\<lparr>exit_code := x\<rparr>))\<lparr>started_at := y\<rparr>) = release s"
  "log_file ((set_state INACTIVE (s\<lparr>exit_code := x\<rparr>))\<lparr>started_at := y\<rparr>) = log_file s"
  by (simp_all add: set_state_def)

text \<open>
  Claim C1. The exit watcher of a service, when the process of the service exits with
  status \<open>c\<close>: the status is recorded and the state becomes \<open>INACTIVE\<close>. With
  \<open>enabled\<close> false nothing else happens: no launch, no task. With \<open>enabled\<close> true
  \<open>run\<close> is called again: the state becomes \<open>STARTING\<close> and up to five launches are
  made; the service is \<open>ACTIVE\<close> again, with its two background tasks scheduled, as
  soon as a launch reports readiness, which for the Python runners that the repository
  gives to services is the first launch. (When none of five launches of a streamlit runner
  reports readiness, the restart ends in \<open>FAILED_TO_START\<close>.) The hypotheses say that
  the process exits and that the restart is not cut short by an exception.
\<close>

theorem wait_task_restarts_enabled_service:
  assumes "proc r = Some p" and "exit_status (behaviour_of ev (pid p)) p = Some c"
      and "loaded_on_disk (release s) g"
      and "runner_class r = StreamlitVenvRunner \<longrightarrow> 5 \<le> length (ports (port_service g))"
      and "\<forall>t. fs g (log_file s) \<noteq> Some (Dir t)"
  shows "(\<not> enabled s \<longrightarrow>
            (\<exists>s' r' g'. Service_wait_task ev self (s, r, g) = Return () (s', r', g')
               \<and> state s' = INACTIVE \<and> exit_code s' = Some c \<and> started_at s' = None
               \<and> history s' = history s @ [INACTIVE]
               \<and> \<not> is_running r' \<and> launches g' = launches g \<and> tasks g' = tasks g))
       \<and> (enabled s \<longrightarrow>
            (\<exists>k s' r' g' p'. Service_wait_task ev self (s, r, g) = Return () (s', r', g')
               \<and> 1 \<le> k \<and> k \<le> 5 \<and> length (launches g') = length (launches g) + k
               \<and> proc r' = Some p' \<and> pid p' = length (launches g) + k - 1
               \<and> (ready_child ev (runner_class r) (length (launches g) + k - 1) \<longrightarrow>
                     state s' = ACTIVE \<and> history s' = history s @ [INACTIVE, STARTING, ACTIVE]
                     \<and> exit_code s' = Some c \<and> is_running r'
                     \<and> tasks g' = tasks g @ [Wait_service self, Log_service self])
               \<and> (\<not> ready_child ev (runner_class r) (length (launches g) + k - 1) \<longrightarrow>
                     k = 5 \<and> state s' = FAILED_TO_START
                     \<and> history s' = history s @ [INACTIVE, STARTING, FAILED_TO_START]
                     \<and> \<not> is_running r')
               \<and> (runner_class r \<noteq> StreamlitVenvRunner \<longrightarrow> k = 1 \<and> state s' = ACTIVE)))"
proof -
  let ?s1 = "(set_state INACTIVE (s\<lparr>exit_code := Some c\<rparr>))\<lparr>started_at := None\<rparr>"
  have pool: "runner_class r = StreamlitVenvRunner \<longrightarrow> startup_tries \<le> length (ports (port_service g))"
    using assms(4) by (simp add: startup_tries_def)
  obtain r1 g1 where exit:
      "Service_wait_task ev self (s, r, g)
          = (if enabled s then Service_run ev self (?s1, r1, g1) else Return () (?s1, r1, g1))"
      "\<not> is_running r1" "runner_class r1 = runner_class r" "launches g1 = launches g" "tasks g1 = tasks g"
      "loaded_on_disk (release s) g1"
      "runner_class r1 = StreamlitVenvRunner \<longrightarrow> startup_tries \<le> length (ports (port_service g1))"
      "\<forall>t. fs g1 (log_file s) \<noteq> Some (Dir t)"
    using Service_wait_task_exit [OF assms(1) assms(2) assms(3) pool assms(5), of self] by blast
  have off: "\<exists>s' r' g'. Service_wait_task ev self (s, r, g) = Return () (s', r', g')
               \<and> state s' = INACTIVE \<and> exit_code s' = Some c \<and> started_at s' = None
               \<and> history s' = history s @ [INACTIVE]
               \<and> \<not> is_running r' \<and> launches g' = launches g \<and> tasks g' = tasks g"
    if "\<not> enabled s"
    using that exit(1) exit(2) exit(4) exit(5)
    by (intro exI [of _ ?s1] exI [of _ r1] exI [of _ g1]) (simp add: history_restarted)
  have on: "\<exists>k s' r' g' p'. Service_wait_task ev self (s, r, g) = Return () (s', r', g')
               \<and> 1 \<le> k \<and> k \<le> 5 \<and> length (launches g') = length (launches g) + k
               \<and> proc r' = Some p' \<and> pid p' = length (launches g) + k - 1
               \<and> (ready_child ev (runner_class r) (length (launches g) + k - 1) \<longrightarrow>
                     state s' = ACTIVE \<and> history s' = history s @ [INACTIVE, STARTING, ACTIVE]
                     \<and> exit_code s' = Some c \<and> is_running r'
                     \<and> tasks g' = tasks g @ [Wait_service self, Log_service self])
               \<and> (\<not> ready_child ev (runner_class r) (length (launches g) + k - 1) \<longrightarrow>
                     k = 5 \<and> state s' = FAILED_TO_START
                     \<and> history s' = history s @ [INACTIVE, STARTING, FAILED_TO_START]
                     \<and> \<not> is_running r')
               \<and> (runner_class r \<noteq> StreamlitVenvRunner \<longrightarrow> k = 1 \<and> state s' = ACTIVE)"
    if en: "enabled s"
  proof -
    have disk1: "loaded_on_disk (release ?s1) g1" and logs1: "\<forall>t. fs g1 (log_file ?s1) \<noteq> Some (Dir t)"
      using exit(6) exit(8) by (simp_all add: history_restarted)
    obtain k s' r' g' p' where run:
        "Service_run ev self (?s1, r1, g1) = Return () (s', r', g')"
        "1 \<le> k" "k \<le> startup_tries" "length (launches g') = length (launches g1) + k"
        "\<forall>j<k - 1. \<not> ready_child ev (runner_class r1) (length (launches g1) + j)"
        "proc r' = Some p'" "pid p' = length (launches g1) + k - 1"
      and ok: "ready_child ev (runner_class r1) (length (launches g1) + k - 1) \<longrightarrow>
             s' = (set_state ACTIVE (set_state STARTING ?s1))\<lparr>started_at := Some (time_time ev)\<rparr>
             \<and> returncode p' = None
             \<and> tasks g' = tasks g1 @ [Wait_service self, Log_service self]
             \<and> log_text ?s1 g' = log_text ?s1 g1 @ log_line ev ''Starting service...''"
      and ko: "\<not> ready_child ev (runner_class r1) (length (launches g1) + k - 1) \<longrightarrow>
             k = startup_tries
             \<and> (\<exists>c'. returncode p' = Some c'
                   \<and> early_exit (behaviour_of ev (length (launches g1) + k - 1)) = Some c'
                   \<and> s' = (set_state FAILED_TO_START (set_state STARTING ?s1))\<lparr>exit_code := Some c'\<rparr>
                   \<and> log_text ?s1 g' = log_text ?s1 g1 @ log_line ev ''Starting service...''
                        @ log_line ev (''Failed to start process. exit-code: '' @ str_int c'))
             \<and> tasks g' = tasks g1"
      using Service_run_idle [OF exit(2) disk1 exit(7) logs1, of ev self] by blast
    have task: "Service_wait_task ev self (s, r, g) = Return () (s', r', g')"
      using exit(1) en run(1) by simp
    have k5: "k \<le> 5"
      using run(3) by (simp add: startup_tries_def)
    have len: "length (launches g') = length (launches g) + k" "pid p' = length (launches g) + k - 1"
      using run(4) run(7) exit(4) by simp_all
    have ok': "ready_child ev (runner_class r) (length (launches g) + k - 1) \<longrightarrow>
         state s' = ACTIVE \<and> history s' = history s @ [INACTIVE, STARTING, ACTIVE]
         \<and> exit_code s' = Some c \<and> is_running r'
         \<and> tasks g' = tasks g @ [Wait_service self, Log_service self]"
      using ok run(6) exit(3) exit(4) exit(5)
      by (auto simp: history_started history_restarted is_running_def)
    have ko': "\<not> ready_child ev (runner_class r) (length (launches g) + k - 1) \<longrightarrow>
         k = 5 \<and> state s' = FAILED_TO_START
         \<and> history s' = history s @ [INACTIVE, STARTING, FAILED_TO_START]
         \<and> \<not> is_running r'"
      using ko run(6) exit(3) exit(4)
      by (auto simp: history_failed history_restarted is_running_def startup_tries_def)
    have py: "k = 1 \<and> state s' = ACTIVE" if "runner_class r \<noteq> StreamlitVenvRunner"
    proof -
      have always: "ready_child ev (runner_class r) n" for n
        using that by (simp add: ready_child_def)
      have "\<not> 0 < k - 1"
        using run(5) always exit(3) by auto
      then have "k = 1"
        using run(2) by simp
      then show ?thesis
        using ok' always by simp
    qed
    show ?thesis
      apply (rule exI [of _ k])
      apply (rule exI [of _ s'])
      apply (rule exI [of _ r'])
      apply (rule exI [of _ g'])
      apply (rule exI [of _ p'])
      using task run(2) k5 len run(6) ok' ko' py apply blast
      done
  qed
  show ?thesis
    using off on by blast
qed

theorem wait_task_restarts_enabled_service_witness:
  "(\<exists>s' r' g'. Service_wait_task (example_environment (\<lambda>n. killed)) 0
        (active_service, running_runner PythonVEnvRunner, running_globals) = Return () (s', r', g')
      \<and> state s' = ACTIVE \<and> history s' = [STARTING, ACTIVE, INACTIVE, STARTING, ACTIVE]
      \<and> exit_code s' = Some (- 9) \<and> length (launches g') = 2 \<and> is_running r'
      \<and> tasks g' = [Wait_service 0, Log_service 0])
   \<and> (\<exists>s' r' g'. Service_wait_task (example_environment (\<lambda>n. killed)) 0
        (active_service\<lparr>enabled := False\<rparr>, running_runner PythonVEnvRunner, running_globals)
          = Return () (s', r', g')
      \<and> state s' = INACTIVE \<and> history s' = [STARTING, ACTIVE, INACTIVE]
      \<and> exit_code s' = Some (- 9) \<and> launches g' = launches running_globals \<and> \<not> is_running r')"
proof -
  let ?p = "\<lparr>pid = 0, returncode = None, sigterm_sent = False, sigkill_sent = False\<rparr>"
  have p: "proc (running_runner PythonVEnvRunner) = Some ?p"
    by (simp add: running_runner_def)
  have c: "exit_status (behaviour_of (example_environment (\<lambda>n. killed)) (pid ?p)) ?p = Some (- 9)"
    by (simp add: exit_status_def example_environment_def killed_def)
  have disk: "loaded_on_disk (release active_service) running_globals"
      "loaded_on_disk (release (active_service\<lparr>enabled := False\<rparr>)) running_globals"
    by (simp_all add: loaded_on_disk_def os_path_exists_def active_service_def example_service_def
        example_release_def example_globals_def running_globals_def)
  have pool: "runner_class (running_runner PythonVEnvRunner) = StreamlitVenvRunner
      \<longrightarrow> 5 \<le> length (ports (port_service running_globals))"
    by (simp add: running_runner_def idle_runner_def SubProcessRunner_init_def)
  have logs: "\<forall>t. fs running_globals (log_file active_service) \<noteq> Some (Dir t)"
      "\<forall>t. fs running_globals (log_file (active_service\<lparr>enabled := False\<rparr>)) \<noteq> Some (Dir t)"
    by (simp_all add: example_globals_def running_globals_def active_service_def example_service_def)
  have facts: "enabled active_service" "history active_service = [STARTING, ACTIVE]"
      "length (launches running_globals) = 1" "tasks running_globals = []"
      "runner_class (running_runner PythonVEnvRunner) \<noteq> StreamlitVenvRunner"
      "ready_child ev (runner_class (running_runner PythonVEnvRunner)) n" for ev n
    by (simp_all add: active_service_def example_service_def running_globals_def example_globals_def
        empty_globals_def running_runner_def idle_runner_def SubProcessRunner_init_def ready_child_def)
  have on: "\<exists>s' r' g'. Service_wait_task (example_environment (\<lambda>n. killed)) 0
        (active_service, running_runner PythonVEnvRunner, running_globals) = Return () (s', r', g')
      \<and> state s' = ACTIVE \<and> history s' = [STARTING, ACTIVE, INACTIVE, STARTING, ACTIVE]
      \<and> exit_code s' = Some (- 9) \<and> length (launches g') = 2 \<and> is_running r'
      \<and> tasks g' = [Wait_service 0, Log_service 0]"
    using wait_task_restarts_enabled_service [OF p c disk(1) pool logs(1), of 0]
    apply (simp add: facts)
    apply (elim exE conjE)
    apply (intro exI conjI)
          apply assumption
         apply simp_all
    done
  have off: "\<exists>s' r' g'. Service_wait_task (example_environment (\<lambda>n. killed)) 0
        (active_service\<lparr>enabled := False\<rparr>, running_runner PythonVEnvRunner, running_globals)
          = Return () (s', r', g')
      \<and> state s' = INACTIVE \<and> history s' = [STARTING, ACTIVE, INACTIVE]
      \<and> exit_code s' = Some (- 9) \<and> launches g' = launches running_globals \<and> \<not> is_running r'"
    using wait_task_restarts_enabled_service [OF p c disk(2) pool logs(2), of 0]
    apply (simp add: facts)
    apply (elim exE conjE)
    apply (intro exI conjI)
         apply assumption
        apply simp_all
    done
  show ?thesis
    using on off by blast
qed

section \<open>Independence of a shared clone\<close>





































end
